theory Spec2Isabelle
  imports Main "HOL-Library.Word"
begin

section \<open>Storage Class Memory Manager (scm.c)\<close>

text \<open>
  A shallow embedding of \<^verbatim>\<open>scm.c\<close>: a bump allocator whose heap is a file mapped at a
  fixed virtual address.  The target is the LP64 ABI the code is written for
  (\<^verbatim>\<open>mmap\<close>, \<^verbatim>\<open>0x600000000000\<close>): \<^verbatim>\<open>int\<close> has 4 bytes, \<^verbatim>\<open>size_t\<close> and pointers have 8, and
  values are stored least significant byte first.

  \<^item> \<^verbatim>\<open>size_t\<close> is \<^typ>\<open>64 word\<close> and \<^verbatim>\<open>int\<close> is \<^typ>\<open>32 word\<close>: their arithmetic wraps, and the
    conversions between them are \<^term>\<open>ucast\<close> (narrowing) and \<^term>\<open>scast\<close> (sign extension).
  \<^item> An address is a natural number below \<open>2^64\<close>, and pointer arithmetic wraps modulo
    \<open>2^64\<close> (\<open>ptr_add\<close>, \<open>ptr_sub\<close>).
  \<^item> Memory is a store of bytes.  The code writes through the pointers of the handle only,
    into the mapping, and the mapping covers whole pages: an access through them with a
    byte outside the mapped pages kills the process (the outcome \<open>Crash\<close>).
  \<^item> A handle \<^verbatim>\<open>struct scm *\<close> is an \<open>scm option\<close>, \<open>None\<close> being \<^verbatim>\<open>NULL\<close>.  Reading a
    field through \<^verbatim>\<open>NULL\<close> is the outcome \<open>Crash\<close> too.
  \<^item> The loop of \<^verbatim>\<open>scm_free\<close> follows size words it reads from memory and need not end: a
    call that does not return has the outcome \<open>Diverges\<close>.
\<close>

subsection \<open>Bytes in memory\<close>

type_synonym addr = nat
type_synonym byte = "8 word"
type_synonym memory = "addr \<Rightarrow> byte"
type_synonym size_t = "64 word"
type_synonym c_int = "32 word"

text \<open>The \<open>k\<close> low bytes of a number, least significant first, and the number they spell.\<close>

primrec le_bytes :: "nat \<Rightarrow> nat \<Rightarrow> byte list" where
  "le_bytes 0 n = []"
| "le_bytes (Suc k) n = of_nat n # le_bytes k (n div 256)"

primrec le_value :: "byte list \<Rightarrow> nat" where
  "le_value [] = 0"
| "le_value (b # bs) = unat b + 256 * le_value bs"

text \<open>Writing a run of bytes at an address, and reading \<open>n\<close> bytes back.\<close>

definition store_bytes :: "memory \<Rightarrow> addr \<Rightarrow> byte list \<Rightarrow> memory" where
  "store_bytes m a bs = (\<lambda>x. if a \<le> x \<and> x < a + length bs then bs ! (x - a) else m x)"

definition load_bytes :: "memory \<Rightarrow> addr \<Rightarrow> nat \<Rightarrow> byte list" where
  "load_bytes m a n = map (\<lambda>i. m (a + i)) [0..<n]"

definition store_u64 :: "memory \<Rightarrow> addr \<Rightarrow> size_t \<Rightarrow> memory" where
  "store_u64 m a w = store_bytes m a (le_bytes 8 (unat w))"

definition load_u64 :: "memory \<Rightarrow> addr \<Rightarrow> size_t" where
  "load_u64 m a = of_nat (le_value (load_bytes m a 8))"

definition store_u32 :: "memory \<Rightarrow> addr \<Rightarrow> c_int \<Rightarrow> memory" where
  "store_u32 m a w = store_bytes m a (le_bytes 4 (unat w))"

definition load_u32 :: "memory \<Rightarrow> addr \<Rightarrow> c_int" where
  "load_u32 m a = of_nat (le_value (load_bytes m a 4))"

subsection \<open>Constants, pointers and the handle\<close>

definition VIRT_ADDR :: addr where
  "VIRT_ADDR = 0x600000000000"

text \<open>\<^verbatim>\<open>#define INT_SIZE 2 * sizeof(int)\<close> and \<^verbatim>\<open>#define METADATA_SIZE 2 * sizeof(size_t)\<close>.\<close>

definition INT_SIZE :: nat where
  "INT_SIZE = 2 * 4"

definition METADATA_SIZE :: nat where
  "METADATA_SIZE = 2 * 8"

text \<open>\<^verbatim>\<open>MAP_FAILED\<close> is \<^verbatim>\<open>(void *) -1\<close>; \<^verbatim>\<open>NULL\<close> is address 0.\<close>

definition MAP_FAILED :: addr where
  "MAP_FAILED = 2 ^ 64 - 1"

definition NULL :: addr where
  "NULL = 0"

text \<open>
  The platform (x86-64 Linux), which the source takes from the kernel and not from a file
  of its own: a page has 4096 bytes, and the addresses a process can map end at
  \<^verbatim>\<open>0x7ffffffff000\<close>, one page below \<open>2^47\<close>.
  \<^verbatim>\<open>mmap\<close> maps whole pages: a mapping of \<open>n\<close> bytes covers \<open>map_len n\<close> bytes.
\<close>

definition PAGE_SIZE :: nat where
  "PAGE_SIZE = 4096"

definition TASK_SIZE :: nat where
  "TASK_SIZE = 0x7ffffffff000"

definition map_len :: "size_t \<Rightarrow> nat" where
  "map_len n = (unat n + PAGE_SIZE - 1) div PAGE_SIZE * PAGE_SIZE"

text \<open>Adding to a pointer and subtracting from it: 64 bits, wrapping.\<close>

definition ptr_add :: "addr \<Rightarrow> nat \<Rightarrow> addr" where
  "ptr_add p n = (p + n) mod 2 ^ 64"

definition ptr_sub :: "addr \<Rightarrow> nat \<Rightarrow> addr" where
  "ptr_sub p n = (p + 2 ^ 64 - n mod 2 ^ 64) mod 2 ^ 64"

text \<open>
  \<^verbatim>\<open>struct scm\<close>.  The field \<open>mem\<close> is not a member of the struct: it is the memory the
  handle's pointers point into, carried with the handle so that each operation is a
  function from the state before to the state after.
\<close>

record scm =
  fd :: int
  base :: addr
  mapped :: addr
  capacity :: size_t
  utilized :: size_t
  mem :: memory

text \<open>
  The \<open>n\<close> bytes from address \<open>a\<close> on lie in the pages of the mapping: the condition for
  an access of \<open>n\<close> bytes at \<open>a\<close> not to kill the process.
\<close>

definition accessible :: "scm \<Rightarrow> addr \<Rightarrow> nat \<Rightarrow> bool" where
  "accessible scm a n \<longleftrightarrow> mapped scm \<le> a \<and> a + n \<le> mapped scm + map_len (capacity scm)"

datatype error = InvalidArgument | CapacityExceeded

text \<open>
  What a call does: it is killed (\<open>Crash\<close>: a \<^verbatim>\<open>NULL\<close> dereference or an access outside the
  mapped pages), it does not return (\<open>Diverges\<close>), or it returns, leaving the handle in a
  new state and yielding a value.
\<close>

datatype 'a outcome = Crash | Diverges | Return "scm option" 'a

text \<open>
  The pointer a call hands back: an operation's failing branches all \<^verbatim>\<open>return NULL\<close>; the
  model keeps which branch it was.
\<close>

fun ret_ptr :: "error + addr \<Rightarrow> addr" where
  "ret_ptr (Inl e) = NULL"
| "ret_ptr (Inr p) = p"

subsection \<open>\<^verbatim>\<open>scm_malloc\<close>\<close>

text \<open>
  \<^verbatim>\<open>scm_malloc\<close>.  After the two tests come three stores: the two words of the block header
  at \<^verbatim>\<open>(char *)scm->base + scm->utilized\<close>, and the \<^verbatim>\<open>int\<close> of the Arena Header.
\<close>

fun scm_malloc :: "scm option \<Rightarrow> size_t \<Rightarrow> (error + addr) outcome" where
  "scm_malloc None sz = Return None (Inl InvalidArgument)"
| "scm_malloc (Some scm) sz =
     (if base scm = MAP_FAILED \<or> sz = 0 then Return (Some scm) (Inl InvalidArgument)
      else if utilized scm + sz + of_nat METADATA_SIZE > capacity scm
        then Return (Some scm) (Inl CapacityExceeded)
      else
        let block_meta = ptr_add (base scm) (unat (utilized scm)) in
        if \<not> accessible scm block_meta 8 then Crash
        else
          let m1 = store_u64 (mem scm) block_meta 1 in
          if \<not> accessible scm (ptr_add block_meta 8) 8 then Crash
          else
            let m2 = store_u64 m1 (ptr_add block_meta 8) sz;
                u = utilized scm + (sz + of_nat METADATA_SIZE);
                scm_meta = mapped scm
            in if \<not> accessible scm (ptr_add scm_meta 4) 4 then Crash
               else Return
                 (Some (scm\<lparr>utilized := u, mem := store_u32 m2 (ptr_add scm_meta 4) (ucast u)\<rparr>))
                 (Inr (ptr_add block_meta METADATA_SIZE)))"

subsection \<open>\<^verbatim>\<open>scm_open\<close> and \<^verbatim>\<open>scm_close\<close>\<close>

text \<open>
  What the operating system answers to the calls of \<^verbatim>\<open>scm_open\<close>, in the order the code
  makes them: \<^verbatim>\<open>malloc\<close>, \<^verbatim>\<open>open\<close> (the descriptor, -1 on failure), \<^verbatim>\<open>fstat\<close>, \<^verbatim>\<open>S_ISREG\<close>,
  \<^verbatim>\<open>st_size\<close> and \<^verbatim>\<open>mmap\<close>; \<open>file_bytes\<close> are the bytes of the file by offset.
\<close>

record sys =
  malloc_ok :: bool
  open_fd :: int
  fstat_ok :: bool
  is_reg :: bool
  st_size :: size_t
  mmap_ok :: bool
  file_bytes :: "nat \<Rightarrow> byte"

text \<open>
  The memory after a successful \<^verbatim>\<open>mmap\<close> with \<^verbatim>\<open>MAP_FIXED | MAP_SHARED\<close> at \<^verbatim>\<open>VIRT_ADDR\<close>: the
  file's bytes, from \<^verbatim>\<open>VIRT_ADDR\<close> on.  Bytes past the end of the file read as zero (as the
  rest of the last page does).
\<close>

definition mmap_image :: "sys \<Rightarrow> memory" where
  "mmap_image s =
     (\<lambda>a. if VIRT_ADDR \<le> a \<and> a < VIRT_ADDR + unat (st_size s)
          then file_bytes s (a - VIRT_ADDR) else 0)"

text \<open>
  \<^verbatim>\<open>scm_open\<close>.  \<^verbatim>\<open>mmap\<close> fails when the system says so, for a length of 0, and for a range
  that does not lie in the addresses of the process.  The accesses to \<^verbatim>\<open>size_info\<close> are in
  the first page of the mapping.  The two tests of \<^verbatim>\<open>(size_info[0] != 1) || truncate\<close> are
  made in the order C makes them.  \<^verbatim>\<open>scm->utilized = size_info[1]\<close> converts an \<^verbatim>\<open>int\<close> to
  \<^verbatim>\<open>size_t\<close>: sign extension.
\<close>

definition scm_open :: "sys \<Rightarrow> c_int \<Rightarrow> scm option" where
  "scm_open s truncate' =
     (if \<not> malloc_ok s then None
      else if open_fd s = - 1 then None
      else if \<not> fstat_ok s then None
      else if \<not> is_reg s then None
      else if \<not> mmap_ok s then None
      else if st_size s = 0 then None
      else if TASK_SIZE < VIRT_ADDR + map_len (st_size s) then None
      else
        let scm = \<lparr>fd = open_fd s, base = ptr_add VIRT_ADDR INT_SIZE, mapped = VIRT_ADDR,
                   capacity = st_size s, utilized = 0, mem = mmap_image s\<rparr>;
            size_info = mapped scm;
            fresh = scm\<lparr>utilized := 0,
                        mem := store_u32 (store_u32 (mem scm) size_info 1) (size_info + 4) 0\<rparr>
        in if load_u32 (mem scm) size_info \<noteq> 1 then Some fresh
           else if truncate' \<noteq> 0 then Some fresh
           else Some (scm\<lparr>utilized := scast (load_u32 (mem scm) (size_info + 4))\<rparr>))"

text \<open>
  The bytes of the file as the mapping holds them: the mapping is shared, so the file is
  what the mapped range of memory contains.
\<close>

definition file_image :: "scm \<Rightarrow> nat \<Rightarrow> byte" where
  "file_image scm = (\<lambda>i. if i < unat (capacity scm) then mem scm (mapped scm + i) else 0)"

text \<open>
  \<^verbatim>\<open>scm_close\<close>: nothing on \<^verbatim>\<open>NULL\<close>; otherwise \<^verbatim>\<open>msync\<close> and \<^verbatim>\<open>munmap\<close> (when the mapping is
  not \<^verbatim>\<open>MAP_FAILED\<close>), after which the handle is gone and the file keeps the bytes.  The
  result is the operating system's state for the next \<^verbatim>\<open>scm_open\<close> of the same path.
\<close>

fun scm_close :: "sys \<Rightarrow> scm option \<Rightarrow> sys" where
  "scm_close s None = s"
| "scm_close s (Some scm) =
     (if mapped scm \<noteq> MAP_FAILED then s\<lparr>file_bytes := file_image scm\<rparr> else s)"

subsection \<open>\<^verbatim>\<open>scm_strdup\<close>\<close>

text \<open>
  The argument \<^verbatim>\<open>const char *input_str\<close>, when it is not \<^verbatim>\<open>NULL\<close> (\<open>None\<close>): a pointer into the
  mapping, or a pointer to a string in the rest of the process's memory, which the
  allocator never writes and of which the model keeps the bytes only.
\<close>

datatype c_string = Elsewhere "byte list" | Mapped addr

text \<open>A string ends at its first zero byte (or at the end of the list).\<close>

definition c_str :: "byte list \<Rightarrow> byte list" where
  "c_str bs = takeWhile (\<lambda>b. b \<noteq> 0) bs"

text \<open>
  Reading a C string in the mapping, byte by byte up to the first zero byte, in memory
  \<open>m\<close>: its bytes without the terminator, or \<open>None\<close> when the reading leaves the mapped
  pages.
\<close>

function c_string_at :: "scm \<Rightarrow> memory \<Rightarrow> addr \<Rightarrow> byte list option" where
  "c_string_at scm m a =
     (if \<not> accessible scm a 1 then None
      else if m a = 0 then Some []
      else map_option ((#) (m a)) (c_string_at scm m (a + 1)))"
  by pat_completeness auto
termination
  by (relation "measure (\<lambda>(scm, m, a). mapped scm + map_len (capacity scm) - a)")
    (auto simp: accessible_def)

declare c_string_at.simps [simp del]

text \<open>The string a pointer points to, as \<^verbatim>\<open>strlen\<close> and \<^verbatim>\<open>strcpy\<close> read it in memory \<open>m\<close>.\<close>

fun string_at :: "scm \<Rightarrow> memory \<Rightarrow> c_string \<Rightarrow> byte list option" where
  "string_at scm m (Elsewhere bs) = Some (c_str bs)"
| "string_at scm m (Mapped a) = c_string_at scm m a"

text \<open>
  \<^verbatim>\<open>scm_strdup\<close>.  The initialiser of \<^verbatim>\<open>allocation_metadata\<close> reads \<^verbatim>\<open>scm->base\<close> and
  \<^verbatim>\<open>scm->utilized\<close> before the test of \<^verbatim>\<open>scm == NULL\<close>: on a \<^verbatim>\<open>NULL\<close> handle the call never
  reaches the test.  There is no test of the capacity.  The in-use word is stored first;
  then \<^verbatim>\<open>strlen\<close> reads the string and the size word is stored; then \<^verbatim>\<open>strcpy\<close> reads the
  string again and writes it with its terminator.  (Where source and destination overlap,
  C leaves \<^verbatim>\<open>strcpy\<close> undefined; the model copies what it has read.)  The size added to
  \<^verbatim>\<open>utilized\<close> is read back from the block header.
\<close>

fun scm_strdup :: "scm option \<Rightarrow> c_string option \<Rightarrow> (error + addr) outcome" where
  "scm_strdup None input_str = Crash"
| "scm_strdup (Some scm) None = Return (Some scm) (Inl InvalidArgument)"
| "scm_strdup (Some scm) (Some str) =
     (if base scm = MAP_FAILED then Return (Some scm) (Inl InvalidArgument)
      else
        let allocation_metadata = ptr_add (base scm) (unat (utilized scm));
            m1 = store_u64 (mem scm) allocation_metadata 1
        in if \<not> accessible scm allocation_metadata 8 then Crash
           else case string_at scm m1 str of
             None \<Rightarrow> Crash
           | Some s1 \<Rightarrow>
               let m2 = store_u64 m1 (ptr_add allocation_metadata 8) (of_nat (length s1) + 1);
                   duplicated_str = ptr_add allocation_metadata METADATA_SIZE
               in if \<not> accessible scm (ptr_add allocation_metadata 8) 8 then Crash
                  else (case string_at scm m2 str of
                    None \<Rightarrow> Crash
                  | Some s2 \<Rightarrow>
                      if \<not> accessible scm duplicated_str (length s2 + 1) then Crash
                      else
                        let m3 = store_bytes m2 duplicated_str (s2 @ [0]);
                            u = utilized scm
                              + (load_u64 m3 (ptr_add allocation_metadata 8)
                                 + of_nat METADATA_SIZE);
                            scm_metadata = mapped scm
                        in if \<not> accessible scm (ptr_add scm_metadata 4) 4 then Crash
                           else Return
                             (Some (scm\<lparr>utilized := u,
                                mem := store_u32 m3 (ptr_add scm_metadata 4) (ucast u)\<rparr>))
                             (Inr duplicated_str)))"

subsection \<open>\<^verbatim>\<open>scm_mbase\<close>, \<^verbatim>\<open>scm_utilized\<close>, \<^verbatim>\<open>scm_capacity\<close>\<close>

fun scm_mbase :: "scm option \<Rightarrow> addr" where
  "scm_mbase None = NULL"
| "scm_mbase (Some scm) = (if 0 \<noteq> utilized scm then ptr_add (base scm) (2 * 8) else base scm)"

fun scm_utilized :: "scm option \<Rightarrow> size_t" where
  "scm_utilized None = 0"
| "scm_utilized (Some scm) = utilized scm"

fun scm_capacity :: "scm option \<Rightarrow> size_t" where
  "scm_capacity None = 0"
| "scm_capacity (Some scm) = capacity scm"

subsection \<open>\<^verbatim>\<open>scm_free\<close>\<close>

text \<open>
  The \<^verbatim>\<open>while\<close> loop of \<^verbatim>\<open>scm_free\<close>: it ends with \<^verbatim>\<open>block_found\<close> set or not, or in an access
  outside the mapped pages; \<open>None\<close> is the loop that does not end.  \<open>limit\<close> is
  \<^verbatim>\<open>(char *)base_address + scm->utilized\<close>.  The next address is the current one plus the
  size word in front of it, \<^verbatim>\<open>((size_t *)current_address - 2)[1]\<close>, plus \<^verbatim>\<open>METADATA_SIZE\<close>.
\<close>

datatype scan = Found | NotFound | Trapped

partial_function (option) scm_free_loop :: "scm \<Rightarrow> addr \<Rightarrow> addr \<Rightarrow> addr \<Rightarrow> scan option" where
  "scm_free_loop scm limit memory_ptr current_address =
     (if current_address < limit then
        (if current_address = memory_ptr then Some Found
         else if \<not> accessible scm (ptr_add (ptr_sub current_address 16) 8) 8 then Some Trapped
         else scm_free_loop scm limit memory_ptr
                (ptr_add
                  (ptr_add current_address
                    (unat (load_u64 (mem scm) (ptr_add (ptr_sub current_address 16) 8))))
                  METADATA_SIZE))
      else Some NotFound)"

text \<open>
  \<^verbatim>\<open>scm_free\<close>.  \<^verbatim>\<open>scm_mbase(NULL)\<close> returns \<^verbatim>\<open>NULL\<close>, and the loop condition then reads
  \<^verbatim>\<open>scm->utilized\<close> through the \<^verbatim>\<open>NULL\<close> handle.
\<close>

fun scm_free :: "scm option \<Rightarrow> addr \<Rightarrow> unit outcome" where
  "scm_free None memory_ptr = Crash"
| "scm_free (Some scm) memory_ptr =
     (let base_address = scm_mbase (Some scm)
      in case scm_free_loop scm (ptr_add base_address (unat (utilized scm))) memory_ptr
              base_address of
           None \<Rightarrow> Diverges
         | Some Trapped \<Rightarrow> Crash
         | Some NotFound \<Rightarrow> Return (Some scm) ()
         | Some Found \<Rightarrow>
             if \<not> accessible scm (ptr_sub memory_ptr 16) 8 then Crash
             else Return (Some (scm\<lparr>mem := store_u64 (mem scm) (ptr_sub memory_ptr 16) 0\<rparr>)) ())"

subsection \<open>Vocabulary of the properties\<close>

text \<open>An address inside the \<open>capacity\<close> bytes of the file in the mapping.\<close>

definition in_mapping :: "scm \<Rightarrow> addr \<Rightarrow> bool" where
  "in_mapping scm a \<longleftrightarrow> mapped scm \<le> a \<and> a < mapped scm + unat (capacity scm)"

text \<open>A handle as \<^verbatim>\<open>scm_open\<close> returns it: its pointers, and a mapping that \<^verbatim>\<open>mmap\<close> grants.\<close>

definition opened :: "scm \<Rightarrow> bool" where
  "opened scm \<longleftrightarrow>
     mapped scm = VIRT_ADDR \<and> base scm = VIRT_ADDR + INT_SIZE \<and> capacity scm \<noteq> 0
     \<and> VIRT_ADDR + map_len (capacity scm) \<le> TASK_SIZE"

text \<open>The utilization word of the Arena Header, \<^verbatim>\<open>((int *)scm->mapped)[1]\<close>.\<close>

definition header_utilized :: "scm \<Rightarrow> c_int" where
  "header_utilized scm = load_u32 (mem scm) (mapped scm + 4)"

text \<open>
  A store to open: a regular file of \<open>n\<close> zero bytes, with a system that refuses nothing.
\<close>

definition blank_file :: "size_t \<Rightarrow> sys" where
  "blank_file n = \<lparr>malloc_ok = True, open_fd = 3, fstat_ok = True, is_reg = True, st_size = n,
     mmap_ok = True, file_bytes = (\<lambda>i. 0)\<rparr>"

text \<open>The state a returning call leaves.\<close>

fun state_of :: "'a outcome \<Rightarrow> scm option" where
  "state_of Crash = None"
| "state_of Diverges = None"
| "state_of (Return h v) = h"

text \<open>
  The bytes of a string do not meet the \<open>n\<close> bytes from \<open>lo\<close> on: always so for a string
  outside the mapping.
\<close>

fun clear_of :: "c_string \<Rightarrow> nat \<Rightarrow> addr \<Rightarrow> nat \<Rightarrow> bool" where
  "clear_of (Elsewhere bs) len lo n \<longleftrightarrow> True"
| "clear_of (Mapped a) len lo n \<longleftrightarrow> a + len \<le> lo \<or> lo + n \<le> a"

text \<open>
  A sequence of allocations, each of which has to return an address: the state after the
  last one, or \<open>None\<close> as soon as one fails.
\<close>

fun malloc_all :: "scm \<Rightarrow> size_t list \<Rightarrow> scm option" where
  "malloc_all scm [] = Some scm"
| "malloc_all scm (sz # szs) =
     (case scm_malloc (Some scm) sz of
        Return (Some scm') (Inr p) \<Rightarrow> malloc_all scm' szs
      | _ \<Rightarrow> None)"

text \<open>
  The scan of \<^verbatim>\<open>scm_free\<close> at an address from which its step leads back to the same address:
  the size word in front of it holds \<open>2^64 - 16\<close>.
\<close>

definition self_loop :: "scm \<Rightarrow> addr \<Rightarrow> addr \<Rightarrow> addr \<Rightarrow> bool" where
  "self_loop scm limit p cur \<longleftrightarrow> cur < limit \<and> cur \<noteq> p
     \<and> accessible scm (ptr_add (ptr_sub cur 16) 8) 8
     \<and> ptr_add (ptr_add cur (unat (load_u64 (mem scm) (ptr_add (ptr_sub cur 16) 8))))
          METADATA_SIZE = cur"

subsection \<open>Blocks and histories\<close>

text \<open>
  The blocks of a store, as pairs of a payload address and a payload size, laid out from
  the address \<open>a\<close> of the first block header to the end \<open>e\<close> of the utilized space: each
  payload starts 16 bytes after its header, and the next header follows the payload.
\<close>

fun layout :: "addr \<Rightarrow> (addr \<times> size_t) list \<Rightarrow> addr \<Rightarrow> bool" where
  "layout a [] e \<longleftrightarrow> a = e"
| "layout a ((p, n) # bs) e \<longleftrightarrow> p = a + 16 \<and> layout (p + unat n) bs e"

text \<open>The size word in front of each payload holds the size of the block.\<close>

definition sizes_stored :: "memory \<Rightarrow> (addr \<times> size_t) list \<Rightarrow> bool" where
  "sizes_stored m bs \<longleftrightarrow> list_all (\<lambda>(p, n). load_u64 m (p - 8) = n) bs"

text \<open>
  The blocks of an opened handle, from \<open>base\<close> to \<open>base + utilized\<close>: every block header lies
  in the mapped pages, and \<open>utilized\<close> is far from wrapping.
\<close>

definition chain :: "scm \<Rightarrow> (addr \<times> size_t) list \<Rightarrow> bool" where
  "chain scm bs \<longleftrightarrow>
     opened scm \<and> layout (base scm) bs (base scm + unat (utilized scm))
     \<and> sizes_stored (mem scm) bs
     \<and> list_all (\<lambda>(p, n). p \<le> mapped scm + map_len (capacity scm)) bs
     \<and> unat (utilized scm) < 2 ^ 48"

text \<open>
  The handles this development follows, each with the blocks made on it so far: a handle
  that \<^verbatim>\<open>scm_open\<close> opened empty, changed by returning calls of \<^verbatim>\<open>scm_malloc\<close> whose size fits
  the capacity without wrapping the sum, of \<^verbatim>\<open>scm_strdup\<close> (the size of whose block is the one
  it has stored in the block header), of \<^verbatim>\<open>scm_free\<close> on any address, and by the caller's
  writes into the mapped bytes of the payload of a block.
\<close>

inductive history :: "scm \<Rightarrow> (addr \<times> size_t) list \<Rightarrow> bool" where
  after_open: "scm_open s truncate' = Some scm \<Longrightarrow> utilized scm = 0 \<Longrightarrow> history scm []"
| after_malloc: "history scm bs \<Longrightarrow> unat (utilized scm) + unat sz + 16 \<le> unat (capacity scm)
    \<Longrightarrow> scm_malloc (Some scm) sz = Return (Some scm') (Inr p)
    \<Longrightarrow> history scm' (bs @ [(p, sz)])"
| after_strdup: "history scm bs
    \<Longrightarrow> scm_strdup (Some scm) (Some str) = Return (Some scm') (Inr p)
    \<Longrightarrow> history scm' (bs @ [(p, load_u64 (mem scm') (p - 8))])"
| after_free: "history scm bs \<Longrightarrow> scm_free (Some scm) q = Return (Some scm') ()
    \<Longrightarrow> history scm' bs"
| after_write: "history scm bs \<Longrightarrow> (p, n) \<in> set bs \<Longrightarrow> p \<le> x \<Longrightarrow> x < p + unat n
    \<Longrightarrow> accessible scm x 1
    \<Longrightarrow> history (scm\<lparr>mem := (mem scm)(x := b)\<rparr>) bs"

section \<open>Memory lemmas\<close>

lemma length_le_bytes [simp]: "length (le_bytes k n) = k"
  by (induction k arbitrary: n) simp_all

lemma le_value_le_bytes: "le_value (le_bytes k n) = n mod 256 ^ k"
proof (induction k arbitrary: n)
  case 0
  show ?case by simp
next
  case (Suc k)
  have "unat (of_nat n :: byte) = n mod 256"
    by (simp add: unat_of_nat)
  then have "le_value (le_bytes (Suc k) n) = n mod 256 + 256 * (n div 256 mod 256 ^ k)"
    by (simp add: Suc.IH)
  also have "\<dots> = n mod 256 ^ Suc k"
    by (simp add: mod_mult2_eq)
  finally show ?case .
qed

lemma store_bytes_outside:
  "x < a \<or> a + length bs \<le> x \<Longrightarrow> store_bytes m a bs x = m x"
  by (auto simp: store_bytes_def)

lemma load_store_bytes_same: "load_bytes (store_bytes m a bs) a (length bs) = bs"
  by (rule nth_equalityI) (simp_all add: load_bytes_def store_bytes_def)

lemma load_store_bytes_disjoint:
  "b + n \<le> a \<or> a + length bs \<le> b \<Longrightarrow> load_bytes (store_bytes m a bs) b n = load_bytes m b n"
  by (auto simp: load_bytes_def store_bytes_def)

lemma load_store_u64_same [simp]: "load_u64 (store_u64 m a w) a = w"
proof -
  have "load_bytes (store_bytes m a (le_bytes 8 (unat w))) a 8 = le_bytes 8 (unat w)"
    using load_store_bytes_same [of m a "le_bytes 8 (unat w)"] by simp
  moreover have "unat w mod 256 ^ 8 = unat w"
    using unsigned_less [of w, where 'a = nat] by simp
  ultimately show ?thesis
    by (simp add: load_u64_def store_u64_def le_value_le_bytes)
qed

lemma load_store_u32_same [simp]: "load_u32 (store_u32 m a w) a = w"
proof -
  have "load_bytes (store_bytes m a (le_bytes 4 (unat w))) a 4 = le_bytes 4 (unat w)"
    using load_store_bytes_same [of m a "le_bytes 4 (unat w)"] by simp
  moreover have "unat w mod 256 ^ 4 = unat w"
    using unsigned_less [of w, where 'a = nat] by simp
  ultimately show ?thesis
    by (simp add: load_u32_def store_u32_def le_value_le_bytes)
qed

lemma load_u64_store_u64_disjoint:
  "b + 8 \<le> a \<or> a + 8 \<le> b \<Longrightarrow> load_u64 (store_u64 m a w) b = load_u64 m b"
  by (simp add: load_u64_def store_u64_def load_store_bytes_disjoint)

lemma load_u64_store_u32_disjoint:
  "b + 8 \<le> a \<or> a + 4 \<le> b \<Longrightarrow> load_u64 (store_u32 m a w) b = load_u64 m b"
  by (simp add: load_u64_def store_u32_def load_store_bytes_disjoint)

lemma load_u32_store_u64_disjoint:
  "b + 4 \<le> a \<or> a + 8 \<le> b \<Longrightarrow> load_u32 (store_u64 m a w) b = load_u32 m b"
  by (simp add: load_u32_def store_u64_def load_store_bytes_disjoint)

lemma load_u32_store_u32_disjoint:
  "b + 4 \<le> a \<or> a + 4 \<le> b \<Longrightarrow> load_u32 (store_u32 m a w) b = load_u32 m b"
  by (simp add: load_u32_def store_u32_def load_store_bytes_disjoint)

text \<open>The bytes of a word, written out: what the simplifier needs on concrete stores.\<close>

lemma le_bytes_4:
  "le_bytes 4 n = [of_nat n, of_nat (n div 256), of_nat (n div 256 div 256),
     of_nat (n div 256 div 256 div 256)]"
proof -
  have "(4::nat) = Suc (Suc (Suc (Suc 0)))" by simp
  then show ?thesis by (simp only: le_bytes.simps)
qed

lemma le_bytes_8:
  "le_bytes 8 n = [of_nat n, of_nat (n div 256), of_nat (n div 256 div 256),
     of_nat (n div 256 div 256 div 256), of_nat (n div 256 div 256 div 256 div 256),
     of_nat (n div 256 div 256 div 256 div 256 div 256),
     of_nat (n div 256 div 256 div 256 div 256 div 256 div 256),
     of_nat (n div 256 div 256 div 256 div 256 div 256 div 256 div 256)]"
proof -
  have "(8::nat) = Suc (Suc (Suc (Suc (Suc (Suc (Suc (Suc 0)))))))" by simp
  then show ?thesis by (simp only: le_bytes.simps)
qed

lemma load_bytes_4: "load_bytes m a 4 = [m a, m (a + 1), m (a + 2), m (a + 3)]"
proof -
  have "[0..<4] = [0, 1, 2, 3::nat]" by (simp add: upt_rec)
  then show ?thesis by (simp add: load_bytes_def)
qed

lemma load_bytes_8:
  "load_bytes m a 8 = [m a, m (a + 1), m (a + 2), m (a + 3), m (a + 4), m (a + 5), m (a + 6), m (a + 7)]"
proof -
  have "[0..<8] = [0, 1, 2, 3, 4, 5, 6, 7::nat]" by (simp add: upt_rec)
  then show ?thesis by (simp add: load_bytes_def)
qed

lemmas mem_eval = load_u32_def load_u64_def store_u32_def store_u64_def store_bytes_def
  load_bytes_4 load_bytes_8 le_bytes_4 le_bytes_8

lemmas scm_eval = scm_open_def blank_file_def mmap_image_def Let_def INT_SIZE_def
  METADATA_SIZE_def MAP_FAILED_def VIRT_ADDR_def in_mapping_def NULL_def
  PAGE_SIZE_def TASK_SIZE_def map_len_def ptr_add_def ptr_sub_def accessible_def

section \<open>Facts about the operations\<close>

subsection \<open>Pages and pointers\<close>

lemma map_len_numeral [simp]:
  "map_len (numeral k) = (unat (numeral k :: size_t) + 4095) div 4096 * 4096"
  by (simp add: map_len_def PAGE_SIZE_def)

lemma unat_le_map_len: "unat c \<le> map_len c"
proof -
  have "unat c \<le> (unat c + 4095) div 4096 * 4096"
    by arith
  then show ?thesis by (simp add: map_len_def PAGE_SIZE_def)
qed

lemma page_le_map_len: "c \<noteq> 0 \<Longrightarrow> PAGE_SIZE \<le> map_len c"
proof -
  assume "c \<noteq> 0"
  then have "1 \<le> unat c" by (simp add: unat_eq_zero Suc_le_eq unat_gt_0)
  then have "1 \<le> (unat c + 4095) div 4096" by arith
  then show ?thesis by (simp add: map_len_def PAGE_SIZE_def)
qed

lemma ptr_add_no_wrap: "p + n < 2 ^ 64 \<Longrightarrow> ptr_add p n = p + n"
  by (simp add: ptr_add_def)

lemma ptr_sub_no_wrap: "n \<le> p \<Longrightarrow> p < 2 ^ 64 \<Longrightarrow> ptr_sub p n = p - n"
proof -
  assume a: "n \<le> p" "p < 2 ^ 64"
  then have n: "n mod 2 ^ 64 = n" by simp
  have "p + 2 ^ 64 - n = p - n + 2 ^ 64"
    using a by simp
  then have "(p + 2 ^ 64 - n) mod 2 ^ 64 = (p - n) mod 2 ^ 64"
    by (simp only: mod_add_self2)
  also have "\<dots> = p - n" using a by simp
  finally show ?thesis by (simp only: ptr_sub_def n)
qed

text \<open>What \<open>opened\<close> gives: the mapping lies below \<open>2^47\<close>, so addresses in it do not wrap.\<close>

lemma opened_mapped: "opened scm \<Longrightarrow> mapped scm = VIRT_ADDR"
  by (simp add: opened_def)

lemma opened_base: "opened scm \<Longrightarrow> base scm = mapped scm + 8"
  by (simp add: opened_def INT_SIZE_def)

lemma opened_top: "opened scm \<Longrightarrow> mapped scm + map_len (capacity scm) < 2 ^ 47"
  by (simp add: opened_def TASK_SIZE_def)

lemma opened_page: "opened scm \<Longrightarrow> 4096 \<le> map_len (capacity scm)"
  using page_le_map_len [of "capacity scm"] by (simp add: opened_def PAGE_SIZE_def)

lemma opened_not_failed: "opened scm \<Longrightarrow> base scm \<noteq> MAP_FAILED"
  by (simp add: opened_def MAP_FAILED_def VIRT_ADDR_def INT_SIZE_def)

lemma opened_header_accessible: "opened scm \<Longrightarrow> accessible scm (ptr_add (mapped scm) 4) 4"
  using opened_top [of scm] opened_page [of scm]
  by (simp add: accessible_def ptr_add_def)

subsection \<open>\<^verbatim>\<open>scm_open\<close> on a file\<close>

lemma scm_open_truncate:
  assumes "malloc_ok s" and "open_fd s \<noteq> - 1" and "fstat_ok s" and "is_reg s" and "mmap_ok s"
    and "st_size s \<noteq> 0" and "VIRT_ADDR + map_len (st_size s) \<le> TASK_SIZE"
    and "truncate' \<noteq> 0"
  shows "scm_open s truncate' =
    Some \<lparr>fd = open_fd s, base = VIRT_ADDR + INT_SIZE, mapped = VIRT_ADDR, capacity = st_size s,
      utilized = 0, mem = store_u32 (store_u32 (mmap_image s) VIRT_ADDR 1) (VIRT_ADDR + 4) 0\<rparr>"
  using assms by (simp add: scm_open_def Let_def ptr_add_def VIRT_ADDR_def INT_SIZE_def)

lemma mmap_image_blank_file: "mmap_image (blank_file n) = (\<lambda>a. 0)"
  by (rule ext) (simp add: mmap_image_def blank_file_def)

lemma scm_open_blank_file:
  assumes "n \<noteq> 0" and "VIRT_ADDR + map_len n \<le> TASK_SIZE"
  shows "scm_open (blank_file n) 1 =
    Some \<lparr>fd = 3, base = VIRT_ADDR + INT_SIZE, mapped = VIRT_ADDR, capacity = n, utilized = 0,
      mem = store_u32 (store_u32 (\<lambda>a. 0) VIRT_ADDR 1) (VIRT_ADDR + 4) 0\<rparr>"
  using assms
  by (subst scm_open_truncate) (simp_all add: mmap_image_blank_file, simp_all add: blank_file_def)

lemmas open_eval = scm_open_blank_file INT_SIZE_def METADATA_SIZE_def MAP_FAILED_def
  VIRT_ADDR_def TASK_SIZE_def Let_def ptr_add_def ptr_sub_def accessible_def

subsection \<open>\<^verbatim>\<open>scm_malloc\<close> when the block header is in the mapped pages\<close>

lemma fits_no_wrap:
  fixes u sz c :: size_t
  assumes "unat u + unat sz + 16 \<le> unat c"
  shows "unat (u + sz + 16) = unat u + unat sz + 16"
    and "unat (u + (sz + 16)) = unat u + unat sz + 16"
    and "\<not> c < u + sz + 16"
proof -
  have c: "unat c < 2 ^ 64"
    using unsigned_less [of c, where 'a = nat] by simp
  have a: "unat (u + sz) = unat u + unat sz"
    using assms c by (subst unat_add_lem [THEN iffD1]) simp_all
  show b: "unat (u + sz + 16) = unat u + unat sz + 16"
    using assms c a by (subst unat_add_lem [THEN iffD1]) simp_all
  then show "unat (u + (sz + 16)) = unat u + unat sz + 16"
    by (simp add: add.assoc)
  show "\<not> c < u + sz + 16"
    using assms b by (simp add: word_less_nat_alt)
qed

text \<open>
  \<^verbatim>\<open>scm_malloc\<close> on an opened handle, when the test lets the size pass and the 16 bytes of the
  block header lie in the mapped pages.
\<close>

lemma scm_malloc_result:
  assumes "opened scm" and "sz \<noteq> 0" and "\<not> capacity scm < utilized scm + sz + 16"
    and "INT_SIZE + unat (utilized scm) + METADATA_SIZE \<le> map_len (capacity scm)"
  shows "scm_malloc (Some scm) sz =
    Return
      (Some (scm\<lparr>utilized := utilized scm + (sz + 16),
         mem := store_u32
           (store_u64 (store_u64 (mem scm) (base scm + unat (utilized scm)) 1)
             (base scm + unat (utilized scm) + 8) sz)
           (mapped scm + 4) (ucast (utilized scm + (sz + 16)))\<rparr>))
      (Inr (base scm + unat (utilized scm) + 16))"
proof -
  have top: "mapped scm + map_len (capacity scm) < 2 ^ 47"
    by (rule opened_top [OF assms(1)])
  have b: "base scm = mapped scm + 8"
    by (rule opened_base [OF assms(1)])
  have fit: "unat (utilized scm) + 24 \<le> map_len (capacity scm)"
    using assms(4) by (simp add: INT_SIZE_def METADATA_SIZE_def)
  have p0: "ptr_add (base scm) (unat (utilized scm)) = base scm + unat (utilized scm)"
    using top fit b by (intro ptr_add_no_wrap) simp
  have p1: "ptr_add (base scm + unat (utilized scm)) 8 = base scm + unat (utilized scm) + 8"
    using top fit b by (intro ptr_add_no_wrap) simp
  have p2: "ptr_add (base scm + unat (utilized scm)) 16 = base scm + unat (utilized scm) + 16"
    using top fit b by (intro ptr_add_no_wrap) simp
  have p3: "ptr_add (mapped scm) 4 = mapped scm + 4"
    using top by (intro ptr_add_no_wrap) simp
  have a0: "accessible scm (base scm + unat (utilized scm)) 8"
    using fit b by (simp add: accessible_def)
  have a1: "accessible scm (base scm + unat (utilized scm) + 8) 8"
    using fit b by (simp add: accessible_def)
  have a2: "accessible scm (mapped scm + 4) 4"
    using opened_header_accessible [OF assms(1)] by (simp only: p3)
  show ?thesis
    using assms(2,3) opened_not_failed [OF assms(1)] a0 a1 a2
    by (simp add: Let_def METADATA_SIZE_def p0 p1 p2 p3)
qed

text \<open>
  With room for the Arena Header as well, \<open>INT_SIZE + utilized + sz + METADATA_SIZE \<le> capacity\<close>,
  \<^verbatim>\<open>scm_malloc\<close> returns the payload address of a new block.
\<close>

lemma scm_malloc_fits:
  assumes "opened scm" and "sz \<noteq> 0"
    and "INT_SIZE + unat (utilized scm) + unat sz + METADATA_SIZE \<le> unat (capacity scm)"
  shows "case scm_malloc (Some scm) sz of
           Return (Some scm') (Inr p) \<Rightarrow>
             p \<noteq> NULL \<and> p = base scm + unat (utilized scm) + METADATA_SIZE
             \<and> load_u64 (mem scm') (base scm + unat (utilized scm)) = 1
             \<and> load_u64 (mem scm') (base scm + unat (utilized scm) + 8) = sz
             \<and> unat (utilized scm') = unat (utilized scm) + unat sz + METADATA_SIZE
             \<and> header_utilized scm' = ucast (utilized scm')
         | _ \<Rightarrow> False"
proof -
  have fit: "unat (utilized scm) + unat sz + 16 \<le> unat (capacity scm)"
    using assms(3) by (simp add: METADATA_SIZE_def)
  have hdr: "mapped scm + 8 \<le> base scm"
    using assms(1) by (simp add: opened_def INT_SIZE_def)
  have pages: "INT_SIZE + unat (utilized scm) + METADATA_SIZE \<le> map_len (capacity scm)"
    using assms(3) unat_le_map_len [of "capacity scm"] by simp
  show ?thesis
    using fits_no_wrap [OF fit] hdr
    by (simp add: scm_malloc_result [OF assms(1,2) fits_no_wrap(3) [OF fit] pages]
        METADATA_SIZE_def NULL_def header_utilized_def
        load_u64_store_u32_disjoint load_u64_store_u64_disjoint del: scm_malloc.simps)
qed

subsection \<open>Strings in the mapping\<close>

lemma c_str_no_zero: "0 \<notin> set (c_str bs)"
  by (auto simp: c_str_def dest: set_takeWhileD)

lemma c_str_replicate: "b \<noteq> 0 \<Longrightarrow> c_str (replicate n b) = replicate n b"
  by (simp add: c_str_def)

lemma c_string_at_elim:
  assumes "c_string_at scm m a = Some s"
  shows "accessible scm a (length s + 1) \<and> (\<forall>i<length s. m (a + i) = s ! i)
    \<and> 0 \<notin> set s \<and> m (a + length s) = 0"
  using assms
proof (induction s arbitrary: a)
  case Nil
  then show ?case
    by (subst (asm) c_string_at.simps) (auto split: if_splits)
next
  case (Cons b s)
  from Cons.prems have acc: "accessible scm a 1" and nz: "m a \<noteq> 0"
    and hd: "b = m a" and tl: "c_string_at scm m (a + 1) = Some s"
    by (subst (asm) c_string_at.simps, auto split: if_splits)+
  from Cons.IH [OF tl] have ih: "accessible scm (a + 1) (length s + 1)"
    "\<forall>i<length s. m (a + 1 + i) = s ! i" "0 \<notin> set s" "m (a + 1 + length s) = 0"
    by simp_all
  have "m (a + i) = (b # s) ! i" if "i < length (b # s)" for i
    using that ih(2) hd by (cases i) simp_all
  moreover have "accessible scm a (length (b # s) + 1)"
    using acc ih(1) by (simp add: accessible_def)
  ultimately show ?case
    using nz hd ih(3,4) by (auto simp: add.assoc)
qed

lemma c_string_at_intro:
  assumes "accessible scm a (length s + 1)" and "\<forall>i<length s. m (a + i) = s ! i"
    and "0 \<notin> set s" and "m (a + length s) = 0"
  shows "c_string_at scm m a = Some s"
  using assms
proof (induction s arbitrary: a)
  case Nil
  then show ?case
    by (subst c_string_at.simps) simp
next
  case (Cons b s)
  have acc: "accessible scm a 1" and acc': "accessible scm (a + 1) (length s + 1)"
    using Cons.prems(1) by (simp_all add: accessible_def)
  have hd: "m a = b"
    using Cons.prems(2) by auto
  have nz: "b \<noteq> 0"
    using Cons.prems(3) by auto
  have "\<forall>i<length s. m (a + 1 + i) = s ! i"
  proof (intro allI impI)
    fix i assume "i < length s"
    then have "m (a + Suc i) = (b # s) ! Suc i"
      using Cons.prems(2) by (metis Suc_less_eq length_Cons)
    then show "m (a + 1 + i) = s ! i" by simp
  qed
  moreover have "0 \<notin> set s" using Cons.prems(3) by simp
  moreover have "m (a + 1 + length s) = 0" using Cons.prems(4) by simp
  ultimately have "c_string_at scm m (a + 1) = Some s"
    using acc' by (intro Cons.IH)
  then show ?case
    using acc hd nz by (subst c_string_at.simps) simp
qed

text \<open>Reading a string depends on its bytes and on the extent of the mapping only.\<close>

lemma c_string_at_cong:
  assumes "c_string_at scm m a = Some s"
    and "mapped scm' = mapped scm" and "capacity scm' = capacity scm"
    and "\<forall>x. a \<le> x \<and> x < a + length s + 1 \<longrightarrow> m' x = m x"
  shows "c_string_at scm' m' a = Some s"
proof -
  note e = c_string_at_elim [OF assms(1)]
  show ?thesis
  proof (rule c_string_at_intro)
    show "accessible scm' a (length s + 1)"
      using e assms(2,3) by (simp add: accessible_def)
    show "\<forall>i<length s. m' (a + i) = s ! i"
      using e assms(4) by simp
    show "0 \<notin> set s" using e by simp
    show "m' (a + length s) = 0"
      using e assms(4) by simp
  qed
qed

lemma string_at_no_zero: "string_at scm m str = Some s \<Longrightarrow> 0 \<notin> set s"
  by (cases str) (auto simp: c_str_no_zero dest: c_string_at_elim)

lemma string_at_cong:
  assumes "string_at scm m str = Some s"
    and "clear_of str (length s + 1) lo n"
    and "\<forall>x. x < lo \<or> lo + n \<le> x \<longrightarrow> m' x = m x"
  shows "string_at scm m' str = Some s"
proof (cases str)
  case (Elsewhere bs)
  then show ?thesis using assms(1) by simp
next
  case (Mapped a)
  have "c_string_at scm m' a = Some s"
  proof (rule c_string_at_cong)
    show "c_string_at scm m a = Some s" using assms(1) Mapped by simp
    show "\<forall>x. a \<le> x \<and> x < a + length s + 1 \<longrightarrow> m' x = m x"
      using assms(2,3) Mapped by auto
  qed simp_all
  then show ?thesis using Mapped by simp
qed

subsection \<open>\<^verbatim>\<open>scm_strdup\<close> when the block is in the mapped pages\<close>

lemma store_bytes_commute:
  "a + length as \<le> b \<or> b + length bs \<le> a \<Longrightarrow>
   store_bytes (store_bytes m a as) b bs = store_bytes (store_bytes m b bs) a as"
  by (rule ext) (auto simp: store_bytes_def)

lemma store_u64_outside: "x < a \<or> a + 8 \<le> x \<Longrightarrow> store_u64 m a w x = m x"
  by (simp add: store_u64_def store_bytes_outside)

lemma store_u32_outside: "x < a \<or> a + 4 \<le> x \<Longrightarrow> store_u32 m a w x = m x"
  by (simp add: store_u32_def store_bytes_outside)

lemma store_bytes_inside: "i < length bs \<Longrightarrow> store_bytes m a bs (a + i) = bs ! i"
  by (simp add: store_bytes_def)

lemma load_u64_store_bytes_disjoint:
  "b + 8 \<le> dst \<Longrightarrow> load_u64 (store_bytes m dst bs) b = load_u64 m b"
  by (simp add: load_u64_def load_store_bytes_disjoint)

lemma store_u32_store_bytes_commute:
  "a + 4 \<le> dst \<Longrightarrow> store_u32 (store_bytes m dst bs) a w = store_bytes (store_u32 m a w) dst bs"
  by (simp add: store_u32_def store_bytes_commute)

lemma scm_strdup_result:
  assumes "opened scm"
    and "string_at scm (mem scm) str = Some s"
    and "INT_SIZE + unat (utilized scm) + METADATA_SIZE + (length s + 1) \<le> map_len (capacity scm)"
    and "clear_of str (length s + 1) (base scm + unat (utilized scm))
           (METADATA_SIZE + (length s + 1))"
  shows "scm_strdup (Some scm) (Some str) =
    Return
      (Some (scm\<lparr>utilized := utilized scm + (of_nat (length s) + 1 + 16),
         mem := store_u32
           (store_bytes
             (store_u64 (store_u64 (mem scm) (base scm + unat (utilized scm)) 1)
               (base scm + unat (utilized scm) + 8) (of_nat (length s) + 1))
             (base scm + unat (utilized scm) + 16) (s @ [0]))
           (mapped scm + 4) (ucast (utilized scm + (of_nat (length s) + 1 + 16)))\<rparr>))
      (Inr (base scm + unat (utilized scm) + 16))"
proof -
  define a where "a = base scm + unat (utilized scm)"
  define n :: size_t where "n = of_nat (length s) + 1"
  define m1 where "m1 = store_u64 (mem scm) a 1"
  define m2 where "m2 = store_u64 m1 (a + 8) n"
  define m3 where "m3 = store_bytes m2 (a + 16) (s @ [0])"
  have top: "mapped scm + map_len (capacity scm) < 2 ^ 47"
    by (rule opened_top [OF assms(1)])
  have b: "base scm = mapped scm + 8"
    by (rule opened_base [OF assms(1)])
  have fit: "a + 16 + (length s + 1) \<le> mapped scm + map_len (capacity scm)"
    using assms(3) b by (simp add: INT_SIZE_def METADATA_SIZE_def a_def)
  have clear: "clear_of str (length s + 1) a (16 + (length s + 1))"
    using assms(4) by (simp add: a_def METADATA_SIZE_def)
  have p0: "ptr_add (base scm) (unat (utilized scm)) = a"
    unfolding a_def using top fit b by (intro ptr_add_no_wrap) (simp add: a_def)
  have p1: "ptr_add a 8 = a + 8"
    using top fit by (intro ptr_add_no_wrap) simp
  have p2: "ptr_add a 16 = a + 16"
    using top fit by (intro ptr_add_no_wrap) simp
  have p3: "ptr_add (mapped scm) 4 = mapped scm + 4"
    using top by (intro ptr_add_no_wrap) simp
  have a0: "accessible scm a 8" and a1: "accessible scm (a + 8) 8"
    and a2: "accessible scm (a + 16) (length s + 1)"
    using fit b by (simp_all add: accessible_def a_def)
  have a3: "accessible scm (mapped scm + 4) 4"
    using opened_header_accessible [OF assms(1)] by (simp only: p3)
  have s1: "string_at scm m1 str = Some s"
    using assms(2) clear
    by (rule string_at_cong) (simp add: m1_def store_u64_outside)
  have s2: "string_at scm m2 str = Some s"
    using assms(2) clear
    by (rule string_at_cong) (simp add: m1_def m2_def store_u64_outside)
  have size_word: "load_u64 m3 (a + 8) = n"
    by (simp add: m3_def m2_def load_u64_store_bytes_disjoint)
  show ?thesis
    using opened_not_failed [OF assms(1)] a0 a1 a2 a3 s1 s2 size_word
    by (simp add: Let_def METADATA_SIZE_def p0 p1 p2 p3 m1_def [symmetric] m2_def [symmetric]
      m3_def [symmetric] n_def [symmetric] a_def [symmetric] add.assoc)
qed

subsection \<open>The first step of the scan of \<^verbatim>\<open>scm_free\<close>\<close>

lemma scm_malloc_Inr:
  assumes "scm_malloc (Some scm) sz = Return h (Inr p)"
  shows "p = ptr_add (ptr_add (base scm) (unat (utilized scm))) 16"
  using assms by (simp add: Let_def METADATA_SIZE_def split: if_splits)

lemma scm_free_loop_first:
  "a < limit \<Longrightarrow> scm_free_loop scm limit a a = Some Found"
  by (subst scm_free_loop.simps) simp

lemma scm_free_loop_empty:
  "\<not> a < limit \<Longrightarrow> scm_free_loop scm limit p a = Some NotFound"
  by (subst scm_free_loop.simps) simp

subsection \<open>\<^verbatim>\<open>scm_open\<close>: reset and adoption\<close>

lemma scast_ucast_small:
  fixes w :: size_t
  assumes "unat w < 2 ^ 31"
  shows "scast (ucast w :: c_int) = w"
proof -
  have tb: "take_bit 31 (unat w) = unat w"
    using assms by (simp add: take_bit_nat_eq_self_iff)
  have small: "n < 31" if "bit w n" for n
  proof -
    have "bit (unat w) n"
      using that by (simp add: bit_unsigned_iff)
    then show ?thesis
      using bit_take_bit_iff [of 31 "unat w" n] tb by simp
  qed
  show ?thesis
    by (rule bit_word_eqI) (auto simp: bit_word_scast_iff bit_word_ucast_iff dest: small)
qed

lemma ucast_scast_id: "ucast (scast (w :: c_int) :: size_t) = w"
  by (rule bit_word_eqI) (auto simp: bit_word_scast_iff bit_word_ucast_iff)

lemma load_bytes_cong:
  "(\<And>i. i < n \<Longrightarrow> m (a + i) = m' (a + i)) \<Longrightarrow> load_bytes m a n = load_bytes m' a n"
  by (simp add: load_bytes_def)

lemma mmap_image_file_image:
  assumes "st_size s = capacity scm" and "mapped scm = VIRT_ADDR" and "i < unat (capacity scm)"
  shows "mmap_image (s\<lparr>file_bytes := file_image scm\<rparr>) (VIRT_ADDR + i) = mem scm (VIRT_ADDR + i)"
  using assms by (simp add: mmap_image_def file_image_def)

lemma scm_open_bad_sentinel:
  assumes "malloc_ok s" and "open_fd s \<noteq> - 1" and "fstat_ok s" and "is_reg s" and "mmap_ok s"
    and "st_size s \<noteq> 0" and "VIRT_ADDR + map_len (st_size s) \<le> TASK_SIZE"
    and "load_u32 (mmap_image s) VIRT_ADDR \<noteq> 1"
  shows "scm_open s truncate' =
    Some \<lparr>fd = open_fd s, base = VIRT_ADDR + INT_SIZE, mapped = VIRT_ADDR, capacity = st_size s,
      utilized = 0, mem = store_u32 (store_u32 (mmap_image s) VIRT_ADDR 1) (VIRT_ADDR + 4) 0\<rparr>"
  using assms by (simp add: scm_open_def Let_def ptr_add_def VIRT_ADDR_def INT_SIZE_def)

lemma scm_open_opened: "scm_open s truncate' = Some scm \<Longrightarrow> opened scm \<and> capacity scm = st_size s"
  by (auto simp: scm_open_def Let_def opened_def ptr_add_def VIRT_ADDR_def INT_SIZE_def
      split: if_splits)

lemma scm_open_header:
  assumes "scm_open s truncate' = Some scm"
  shows "load_u32 (mem scm) (mapped scm) = 1 \<and> header_utilized scm = ucast (utilized scm)"
  using assms
  by (auto simp: scm_open_def Let_def header_utilized_def load_u32_store_u32_disjoint
      ucast_scast_id split: if_splits)

lemma scm_open_reset:
  assumes "scm_open s truncate' = Some scm"
    and "truncate' \<noteq> 0 \<or> load_u32 (mmap_image s) VIRT_ADDR \<noteq> 1"
  shows "utilized scm = 0 \<and> header_utilized scm = 0 \<and> load_u32 (mem scm) (mapped scm) = 1"
  using assms
  by (auto simp: scm_open_def Let_def header_utilized_def load_u32_store_u32_disjoint
      split: if_splits)

text \<open>
  \<^verbatim>\<open>scm_close\<close> and \<^verbatim>\<open>scm_open\<close> without truncation: the utilization is adopted when it is
  below \<open>2^31\<close>, the file has the 8 bytes of the Arena Header, and the header holds the
  sentinel and the low 32 bits of \<open>utilized\<close>.
\<close>

lemma reopen_adopts_utilized:
  assumes "opened scm" and "8 \<le> unat (capacity scm)"
    and "malloc_ok s" and "open_fd s \<noteq> - 1" and "fstat_ok s" and "is_reg s" and "mmap_ok s"
    and "st_size s = capacity scm"
    and "load_u32 (mem scm) (mapped scm) = 1"
    and "header_utilized scm = ucast (utilized scm)"
    and "unat (utilized scm) < 2 ^ 31"
  shows "scm_utilized (scm_open (scm_close s (Some scm)) 0) = utilized scm"
proof -
  let ?s = "s\<lparr>file_bytes := file_image scm\<rparr>"
  have mp: "mapped scm = VIRT_ADDR"
    using assms(1) by (simp add: opened_def)
  have nf: "mapped scm \<noteq> MAP_FAILED"
    by (simp add: mp VIRT_ADDR_def MAP_FAILED_def)
  have nz: "st_size s \<noteq> 0" and top: "\<not> TASK_SIZE < VIRT_ADDR + map_len (st_size s)"
    using assms(1,8) by (simp_all add: opened_def)
  have same: "mmap_image ?s (VIRT_ADDR + i) = mem scm (VIRT_ADDR + i)" if "i < 8" for i
    using that assms(2) by (intro mmap_image_file_image assms mp) simp
  have "load_bytes (mmap_image ?s) VIRT_ADDR 4 = load_bytes (mem scm) VIRT_ADDR 4"
    by (rule load_bytes_cong) (simp add: same)
  then have sentinel: "load_u32 (mmap_image ?s) VIRT_ADDR = 1"
    using assms(9) by (simp add: load_u32_def mp)
  have "load_bytes (mmap_image ?s) (VIRT_ADDR + 4) 4 = load_bytes (mem scm) (VIRT_ADDR + 4) 4"
    by (rule load_bytes_cong) (use same in \<open>simp add: add.assoc\<close>)
  then have counter: "load_u32 (mmap_image ?s) (VIRT_ADDR + 4) = ucast (utilized scm)"
    using assms(10) by (simp add: load_u32_def header_utilized_def mp)
  show ?thesis
    using nf assms(3-8) nz top sentinel counter scast_ucast_small [OF assms(11)]
    by (simp add: scm_open_def Let_def)
qed

subsection \<open>\<^verbatim>\<open>scm_malloc\<close>: the capacity test without wrap-around\<close>

lemma no_wrap:
  fixes u sz :: size_t
  assumes "unat u + unat sz + 16 < 2 ^ 64"
  shows "unat (u + sz + 16) = unat u + unat sz + 16"
proof -
  have a: "unat (u + sz) = unat u + unat sz"
    using assms by (subst unat_add_lem [THEN iffD1]) simp_all
  show ?thesis
    using assms a by (subst unat_add_lem [THEN iffD1]) simp_all
qed

lemma scm_malloc_failure_unchanged: "scm_malloc h sz = Return h' (Inl e) \<Longrightarrow> h' = h"
  by (cases h) (auto simp: Let_def split: if_splits)

lemma scm_malloc_capacity_exceeded_iff:
  assumes "opened scm" and "sz \<noteq> 0"
    and "unat (utilized scm) + unat sz + 16 < 2 ^ 64"
  shows "scm_malloc (Some scm) sz = Return (Some scm) (Inl CapacityExceeded)
    \<longleftrightarrow> unat (capacity scm) < unat (utilized scm) + unat sz + 16"
  using assms(2) opened_not_failed [OF assms(1)] no_wrap [OF assms(3)]
  by (simp add: Let_def METADATA_SIZE_def word_less_nat_alt)

lemma malloc_all_fits:
  assumes "opened scm" and "0 \<notin> set szs"
    and "INT_SIZE + unat (utilized scm) + sum_list (map unat szs) + 16 * length szs
      \<le> unat (capacity scm)"
  shows "\<exists>scm'. malloc_all scm szs = Some scm' \<and> opened scm' \<and> capacity scm' = capacity scm
    \<and> unat (utilized scm') = unat (utilized scm) + sum_list (map unat szs) + 16 * length szs"
  using assms
proof (induction szs arbitrary: scm)
  case Nil
  then show ?case by simp
next
  case (Cons sz szs)
  let ?scm = "scm\<lparr>utilized := utilized scm + (sz + 16),
    mem := store_u32
      (store_u64 (store_u64 (mem scm) (base scm + unat (utilized scm)) 1)
        (base scm + unat (utilized scm) + 8) sz)
      (mapped scm + 4) (ucast (utilized scm + (sz + 16)))\<rparr>"
  have fit: "unat (utilized scm) + unat sz + 16 \<le> unat (capacity scm)"
    using Cons.prems(3) by simp
  have pages: "INT_SIZE + unat (utilized scm) + METADATA_SIZE \<le> map_len (capacity scm)"
    using Cons.prems(3) unat_le_map_len [of "capacity scm"] by (simp add: METADATA_SIZE_def)
  have nz: "sz \<noteq> 0"
    using Cons.prems(2) by auto
  have m: "scm_malloc (Some scm) sz = Return (Some ?scm) (Inr (base scm + unat (utilized scm) + 16))"
    by (rule scm_malloc_result [OF Cons.prems(1) nz fits_no_wrap(3) [OF fit] pages])
  have o: "opened ?scm"
    using Cons.prems(1) by (simp add: opened_def)
  have u: "unat (utilized ?scm) = unat (utilized scm) + unat sz + 16"
    using fits_no_wrap(2) [OF fit] by simp
  have "\<exists>scm'. malloc_all ?scm szs = Some scm' \<and> opened scm' \<and> capacity scm' = capacity ?scm
    \<and> unat (utilized scm') = unat (utilized ?scm) + sum_list (map unat szs) + 16 * length szs"
    using Cons.prems(2,3) u by (intro Cons.IH o) simp_all
  then obtain scm' where r: "malloc_all ?scm szs = Some scm'" "opened scm'"
      "capacity scm' = capacity ?scm"
      "unat (utilized scm') = unat (utilized ?scm) + sum_list (map unat szs) + 16 * length szs"
    by blast
  have "malloc_all scm (sz # szs) = Some scm'"
    using r(1) by (simp add: m del: scm_malloc.simps)
  moreover have "unat (utilized scm') =
      unat (utilized scm) + sum_list (map unat (sz # szs)) + 16 * length (sz # szs)"
    using r(4) u by simp
  moreover have "capacity scm' = capacity scm"
    using r(3) by simp
  ultimately show ?case
    using r(2) by blast
qed

text \<open>
  Allocations that fill an empty store of capacity \<open>C\<close> up to \<open>C - INT_SIZE\<close> all succeed,
  and a further allocation fails with \<open>CapacityExceeded\<close> when its size does not wrap the
  sum.
\<close>

lemma malloc_all_then_full:
  assumes "opened scm" and "utilized scm = 0" and "0 \<notin> set szs"
    and "sum_list (map unat szs) + 16 * length szs + INT_SIZE = unat (capacity scm)"
    and "sz \<noteq> 0" and "unat (capacity scm) + unat sz + 8 < 2 ^ 64"
  shows "\<exists>scm'. malloc_all scm szs = Some scm'
    \<and> unat (utilized scm') + INT_SIZE = unat (capacity scm')
    \<and> scm_malloc (Some scm') sz = Return (Some scm') (Inl CapacityExceeded)"
proof -
  have "INT_SIZE + unat (utilized scm) + sum_list (map unat szs) + 16 * length szs
      \<le> unat (capacity scm)"
    using assms(2,4) by simp
  from malloc_all_fits [OF assms(1,3) this] obtain scm'
    where a: "malloc_all scm szs = Some scm'" and o: "opened scm'"
      and c: "capacity scm' = capacity scm"
      and u: "unat (utilized scm') = unat (utilized scm) + sum_list (map unat szs) + 16 * length szs"
    by blast
  have full: "unat (utilized scm') + INT_SIZE = unat (capacity scm')"
    using assms(2,4) u c by simp
  then have "unat (utilized scm') + unat sz + 16 < 2 ^ 64"
    using assms(6) c by (simp add: INT_SIZE_def)
  from scm_malloc_capacity_exceeded_iff [OF o assms(5) this]
  have "scm_malloc (Some scm') sz = Return (Some scm') (Inl CapacityExceeded)"
    using full by (simp add: INT_SIZE_def del: scm_malloc.simps)
  with a full show ?thesis by blast
qed

subsection \<open>\<^verbatim>\<open>scm_free\<close>: what it can change\<close>

text \<open>
  A returning \<^verbatim>\<open>scm_free\<close> leaves the handle as it was, or with the 8 bytes at
  \<open>memory_ptr - 16\<close> set to zero: no other byte of memory and no field of the handle
  changes.
\<close>

lemma scm_free_frame:
  assumes "scm_free (Some scm) p = Return h ()"
  shows "h = Some scm \<or> h = Some (scm\<lparr>mem := store_u64 (mem scm) (ptr_sub p 16) 0\<rparr>)"
  using assms by (auto simp: Let_def split: option.splits scan.splits if_splits)

lemma scm_free_utilized:
  assumes "scm_free (Some scm) p = Return (Some scm') ()"
  shows "utilized scm' = utilized scm \<and> capacity scm' = capacity scm \<and> base scm' = base scm
    \<and> mapped scm' = mapped scm"
  using scm_free_frame [OF assms] by auto

subsection \<open>The Arena Header keeps the low 32 bits of \<open>utilized\<close>\<close>

lemma opened_header_ptr: "opened scm \<Longrightarrow> ptr_add (mapped scm) 4 = mapped scm + 4"
  using opened_top [of scm] by (intro ptr_add_no_wrap) simp

lemma header_low_bits_malloc:
  assumes "opened scm" and "header_utilized scm = ucast (utilized scm)"
    and "scm_malloc (Some scm) sz = Return (Some scm') r"
  shows "header_utilized scm' = ucast (utilized scm')"
  using assms(2,3) opened_header_ptr [OF assms(1)]
  by (auto simp: Let_def header_utilized_def split: if_splits)

lemma header_low_bits_strdup:
  assumes "opened scm" and "header_utilized scm = ucast (utilized scm)"
    and "scm_strdup (Some scm) str = Return (Some scm') r"
  shows "header_utilized scm' = ucast (utilized scm')"
  using assms(2,3) opened_header_ptr [OF assms(1)]
  by (cases str) (auto simp: Let_def header_utilized_def split: if_splits option.splits)

subsection \<open>The chain of blocks\<close>

lemma load_u64_cong:
  "(\<And>i. i < 8 \<Longrightarrow> m (a + i) = m' (a + i)) \<Longrightarrow> load_u64 m a = load_u64 m' a"
  by (simp add: load_u64_def load_bytes_cong [of 8 m a m'])

lemma load_u32_cong:
  "(\<And>i. i < 4 \<Longrightarrow> m (a + i) = m' (a + i)) \<Longrightarrow> load_u32 m a = load_u32 m' a"
  by (simp add: load_u32_def load_bytes_cong [of 4 m a m'])

lemma load_u32_store_bytes_disjoint:
  "b + 4 \<le> dst \<Longrightarrow> load_u32 (store_bytes m dst bs) b = load_u32 m b"
  by (simp add: load_u32_def load_store_bytes_disjoint)

lemma store_u64_twice: "store_u64 (store_u64 m a w) a w = store_u64 m a w"
  by (rule ext) (simp add: store_u64_def store_bytes_def)

lemma layout_le: "layout a bs e \<Longrightarrow> a \<le> e"
  by (induction a bs e rule: layout.induct) auto

lemma layout_member:
  "layout a bs e \<Longrightarrow> (p, n) \<in> set bs \<Longrightarrow> a + 16 \<le> p \<and> p + unat n \<le> e"
proof (induction a bs e rule: layout.induct)
  case (1 a e)
  then show ?case by simp
next
  case (2 a q k bs e)
  then show ?case
    using layout_le [of "q + unat k" bs e] by auto
qed

lemma layout_append:
  "layout a bs e \<Longrightarrow> layout a (bs @ [(e + 16, n)]) (e + 16 + unat n)"
  by (induction a bs e rule: layout.induct) auto

lemma layout_apart:
  "layout a bs e \<Longrightarrow> (p, n) \<in> set bs \<Longrightarrow> (q, k) \<in> set bs \<Longrightarrow> p < q
    \<Longrightarrow> p + unat n + 16 \<le> q"
proof (induction a bs e rule: layout.induct)
  case (1 a e)
  then show ?case by simp
next
  case (2 a r j bs e)
  have tail: "r + unat j + 16 \<le> t" if "(t, i) \<in> set bs" for t i
    using layout_member [of "r + unat j" bs e t i] that "2.prems"(1) by auto
  from "2.prems" tail show ?case
    using "2.IH" by (auto dest: tail)
qed

lemma layout_apart_cases:
  assumes "layout a bs e" and "(p, n) \<in> set bs" and "(q, k) \<in> set bs"
  shows "q \<le> p \<or> p + unat n + 16 \<le> q"
proof (cases "p < q")
  case True
  from layout_apart [OF assms True] show ?thesis ..
next
  case False
  then show ?thesis by simp
qed

lemma layout_empty:
  assumes "layout a bs a"
  shows "bs = []"
proof (cases bs)
  case Nil
  then show ?thesis .
next
  case (Cons b bs')
  obtain p n where b: "b = (p, n)" by (cases b)
  have "(p, n) \<in> set bs"
    using Cons b by simp
  from layout_member [OF assms this] have False by arith
  then show ?thesis ..
qed

lemma sizes_stored_member:
  "sizes_stored m bs \<Longrightarrow> (p, n) \<in> set bs \<Longrightarrow> load_u64 m (p - 8) = n"
  by (auto simp: sizes_stored_def list_all_iff)

lemma sizes_stored_cong:
  assumes "sizes_stored m bs"
    and "\<And>p n. (p, n) \<in> set bs \<Longrightarrow> load_u64 m' (p - 8) = load_u64 m (p - 8)"
  shows "sizes_stored m' bs"
  using assms by (auto simp: sizes_stored_def list_all_iff)

lemma sizes_stored_append:
  "sizes_stored m bs \<Longrightarrow> load_u64 m (p - 8) = n \<Longrightarrow> sizes_stored m (bs @ [(p, n)])"
  by (simp add: sizes_stored_def)

lemma scm_free_loop_step:
  assumes "cur < limit" and "cur \<noteq> p" and "accessible scm (ptr_add (ptr_sub cur 16) 8) 8"
  shows "scm_free_loop scm limit p cur =
    scm_free_loop scm limit p
      (ptr_add (ptr_add cur (unat (load_u64 (mem scm) (ptr_add (ptr_sub cur 16) 8))))
        METADATA_SIZE)"
  using assms by (subst scm_free_loop.simps) simp

text \<open>
  The scan of \<^verbatim>\<open>scm_free\<close> over a chain whose block headers lie in the mapped pages ends: it
  finds the payload addresses of the chain, and only those.
\<close>

lemma scan_chain:
  assumes "layout a bs e" and "sizes_stored (mem scm) bs"
    and "list_all (\<lambda>(p, n). p \<le> mapped scm + map_len (capacity scm)) bs"
    and "mapped scm \<le> a" and "e + 16 < 2 ^ 64"
  shows "scm_free_loop scm (e + 16) p (a + 16)
    = Some (if p \<in> fst ` set bs then Found else NotFound)"
  using assms
proof (induction a bs e rule: layout.induct)
  case (1 a e)
  then show ?case
    by (subst scm_free_loop.simps) simp
next
  case (2 a q k bs e)
  have q: "q = a + 16" and rest: "layout (q + unat k) bs e"
    using "2.prems"(1) by auto
  have le: "q + unat k \<le> e"
    by (rule layout_le [OF rest])
  have lt: "q < e + 16"
    using le by simp
  have stored: "load_u64 (mem scm) (a + 8) = k" and tail: "sizes_stored (mem scm) bs"
    using "2.prems"(2) q by (auto simp: sizes_stored_def add.commute)
  have pages: "q \<le> mapped scm + map_len (capacity scm)"
    and pages': "list_all (\<lambda>(p, n). p \<le> mapped scm + map_len (capacity scm)) bs"
    using "2.prems"(3) by simp_all
  have size_ptr: "ptr_add (ptr_sub q 16) 8 = a + 8"
  proof -
    have "ptr_sub q 16 = q - 16"
      using q "2.prems"(5) le by (intro ptr_sub_no_wrap) simp_all
    moreover have "ptr_add a 8 = a + 8"
      using q "2.prems"(5) le by (intro ptr_add_no_wrap) simp
    ultimately show ?thesis by (simp add: q)
  qed
  have acc: "accessible scm (a + 8) 8"
    using pages q "2.prems"(4) by (simp add: accessible_def)
  have nxt: "ptr_add (ptr_add q (unat k)) METADATA_SIZE = q + unat k + 16"
  proof -
    have "ptr_add q (unat k) = q + unat k"
      using "2.prems"(5) le by (intro ptr_add_no_wrap) simp
    moreover have "ptr_add (q + unat k) 16 = q + unat k + 16"
      using "2.prems"(5) le by (intro ptr_add_no_wrap) simp
    ultimately show ?thesis by (simp add: METADATA_SIZE_def)
  qed
  have "scm_free_loop scm (e + 16) p q
      = Some (if p \<in> fst ` set ((q, k) # bs) then Found else NotFound)"
  proof (cases "q = p")
    case True
    then show ?thesis
      using lt scm_free_loop_first [of p "e + 16" scm] by simp
  next
    case False
    have "scm_free_loop scm (e + 16) p (q + unat k + 16)
        = Some (if p \<in> fst ` set bs then Found else NotFound)"
      using rest tail pages' "2.prems"(4,5) q by (intro "2.IH") simp_all
    moreover have "scm_free_loop scm (e + 16) p q = scm_free_loop scm (e + 16) p (q + unat k + 16)"
      using scm_free_loop_step [of q "e + 16" p scm] lt False acc
      by (simp add: size_ptr stored nxt)
    ultimately show ?thesis
      using False by auto
  qed
  then show ?case
    by (simp only: q)
qed

subsection \<open>The operations keep the chain\<close>

lemma chain_opened: "chain scm bs \<Longrightarrow> opened scm"
  by (simp add: chain_def)

lemma chain_base: "chain scm bs \<Longrightarrow> base scm = mapped scm + 8"
  by (simp add: chain_def opened_base)

lemma chain_open:
  assumes "scm_open s truncate' = Some scm" and "utilized scm = 0"
  shows "chain scm []"
  using assms scm_open_opened [OF assms(1)] by (simp add: chain_def sizes_stored_def)

text \<open>
  What a returning \<^verbatim>\<open>scm_malloc\<close> has done on an opened handle whose \<open>utilized\<close> is far from
  wrapping: the block header went to \<open>base + utilized\<close>, in the mapped pages.
\<close>

lemma scm_malloc_Return:
  assumes "opened scm" and "unat (utilized scm) < 2 ^ 48"
    and "scm_malloc (Some scm) sz = Return (Some scm') (Inr p)"
  shows "base scm + unat (utilized scm) + 16 \<le> mapped scm + map_len (capacity scm)
    \<and> p = base scm + unat (utilized scm) + 16
    \<and> scm' = scm\<lparr>utilized := utilized scm + (sz + 16),
        mem := store_u32
          (store_u64 (store_u64 (mem scm) (base scm + unat (utilized scm)) 1)
            (base scm + unat (utilized scm) + 8) sz)
          (mapped scm + 4) (ucast (utilized scm + (sz + 16)))\<rparr>"
proof -
  define e where "e = base scm + unat (utilized scm)"
  have b: "base scm = mapped scm + 8" and top: "mapped scm + map_len (capacity scm) < 2 ^ 47"
    using opened_base [OF assms(1)] opened_top [OF assms(1)] by simp_all
  have e: "e + 16 < 2 ^ 64"
    using assms(2) b top by (simp add: e_def)
  have p0: "ptr_add (base scm) (unat (utilized scm)) = e"
    unfolding e_def using e by (intro ptr_add_no_wrap) (simp add: e_def)
  have p1: "ptr_add e 8 = e + 8" and p2: "ptr_add e 16 = e + 16"
    using e by (simp_all add: ptr_add_no_wrap)
  have p3: "ptr_add (mapped scm) 4 = mapped scm + 4"
    by (rule opened_header_ptr [OF assms(1)])
  show ?thesis
    using assms(3)
    by (simp add: Let_def METADATA_SIZE_def p0 p1 p2 p3 e_def [symmetric] accessible_def
        split: if_splits)
qed

lemma chain_malloc:
  assumes "chain scm bs"
    and "unat (utilized scm) + unat sz + 16 \<le> unat (capacity scm)"
    and "scm_malloc (Some scm) sz = Return (Some scm') (Inr p)"
  shows "chain scm' (bs @ [(p, sz)])"
proof -
  define e where "e = base scm + unat (utilized scm)"
  have o: "opened scm" and lay: "layout (base scm) bs e" and st: "sizes_stored (mem scm) bs"
    and pg: "list_all (\<lambda>(p, n). p \<le> mapped scm + map_len (capacity scm)) bs"
    and u: "unat (utilized scm) < 2 ^ 48"
    using assms(1) by (simp_all add: chain_def e_def)
  note r = scm_malloc_Return [OF o u assms(3)]
  have scm': "scm' = scm\<lparr>utilized := utilized scm + (sz + 16),
      mem := store_u32 (store_u64 (store_u64 (mem scm) e 1) (e + 8) sz) (mapped scm + 4)
        (ucast (utilized scm + (sz + 16)))\<rparr>"
    and p: "p = e + 16" and fit: "e + 16 \<le> mapped scm + map_len (capacity scm)"
    using r by (simp_all add: e_def)
  have hdr: "mapped scm + 8 = base scm"
    using o by (simp add: opened_def INT_SIZE_def)
  have old: "load_u64 (mem scm') (q - 8) = load_u64 (mem scm) (q - 8)" if "(q, k) \<in> set bs" for q k
  proof -
    have "base scm + 16 \<le> q" "q + unat k \<le> e"
      using layout_member [OF lay that] by simp_all
    then show ?thesis
      using hdr
      by (simp add: scm' load_u64_store_u32_disjoint load_u64_store_u64_disjoint)
  qed
  have "p - 8 = e + 8"
    by (simp add: p)
  moreover have "load_u64 (mem scm') (e + 8) = sz"
    using hdr by (simp add: scm' e_def load_u64_store_u32_disjoint)
  ultimately have new: "load_u64 (mem scm') (p - 8) = sz"
    by (simp only:)
  have "base scm' + unat (utilized scm') = e + 16 + unat sz"
    using fits_no_wrap(2) [OF assms(2)] by (simp add: scm' e_def)
  moreover have "opened scm'"
    using o by (simp add: scm' opened_def)
  moreover have "layout (base scm') (bs @ [(p, sz)]) (e + 16 + unat sz)"
    using layout_append [OF lay, of sz] by (simp add: scm' p)
  moreover have "sizes_stored (mem scm') (bs @ [(p, sz)])"
    by (rule sizes_stored_append [OF sizes_stored_cong [OF st old] new])
  moreover have "list_all (\<lambda>(p, n). p \<le> mapped scm' + map_len (capacity scm')) (bs @ [(p, sz)])"
    using pg fit by (simp add: scm' p)
  moreover have "unat (utilized scm') < 2 ^ 48"
  proof -
    have "unat (utilized scm') \<le> unat (capacity scm)"
      using fits_no_wrap(2) [OF assms(2)] assms(2) by (simp add: scm')
    also have "\<dots> \<le> map_len (capacity scm)"
      by (rule unat_le_map_len)
    also have "\<dots> < 2 ^ 48"
      using opened_top [OF o] by simp
    finally show ?thesis .
  qed
  ultimately show ?thesis
    by (simp add: chain_def)
qed

text \<open>
  What a returning \<^verbatim>\<open>scm_strdup\<close> has done on an opened handle whose \<open>utilized\<close> is far from
  wrapping: \<open>s1\<close> is the string \<^verbatim>\<open>strlen\<close> has measured and \<open>s2\<close> the one \<^verbatim>\<open>strcpy\<close> has copied.
\<close>

lemma scm_strdup_Return:
  assumes "opened scm" and "unat (utilized scm) < 2 ^ 48"
    and "scm_strdup (Some scm) (Some str) = Return (Some scm') (Inr p)"
    and "e = base scm + unat (utilized scm)"
  shows "\<exists>s1 s2.
      string_at scm (store_u64 (mem scm) e 1) str = Some s1
    \<and> string_at scm (store_u64 (store_u64 (mem scm) e 1) (e + 8) (of_nat (length s1) + 1)) str
        = Some s2
    \<and> e + 16 + (length s2 + 1) \<le> mapped scm + map_len (capacity scm)
    \<and> p = e + 16
    \<and> scm' = scm\<lparr>utilized := utilized scm + (of_nat (length s1) + 1 + 16),
        mem := store_u32
          (store_bytes
            (store_u64 (store_u64 (mem scm) e 1) (e + 8) (of_nat (length s1) + 1))
            (e + 16) (s2 @ [0]))
          (mapped scm + 4) (ucast (utilized scm + (of_nat (length s1) + 1 + 16)))\<rparr>"
proof -
  have b: "base scm = mapped scm + 8" and top: "mapped scm + map_len (capacity scm) < 2 ^ 47"
    using opened_base [OF assms(1)] opened_top [OF assms(1)] by simp_all
  have e: "e + 16 < 2 ^ 64"
    using assms(2) b top by (simp add: assms(4))
  have p0: "ptr_add (base scm) (unat (utilized scm)) = e"
    unfolding assms(4) using e by (intro ptr_add_no_wrap) (simp add: assms(4))
  have p1: "ptr_add e 8 = e + 8" and p2: "ptr_add e 16 = e + 16"
    using e by (simp_all add: ptr_add_no_wrap)
  have p3: "ptr_add (mapped scm) 4 = mapped scm + 4"
    by (rule opened_header_ptr [OF assms(1)])
  show ?thesis
    using assms(3)
    by (auto simp: Let_def METADATA_SIZE_def p0 p1 p2 p3 accessible_def
        load_u64_store_bytes_disjoint add.assoc split: if_splits option.splits)
qed

text \<open>A string that \<^verbatim>\<open>strlen\<close> can measure is shorter than the mapping, or is the one copied.\<close>

lemma string_at_length:
  assumes "string_at scm m1 str = Some s1" and "string_at scm m2 str = Some s2"
  shows "length s1 + 1 \<le> map_len (capacity scm) \<or> s1 = s2"
proof (cases str)
  case (Elsewhere bs)
  then show ?thesis using assms by simp
next
  case (Mapped a)
  then have "accessible scm a (length s1 + 1)"
    using assms(1) c_string_at_elim [of scm m1 a s1] by simp
  then show ?thesis
    by (simp add: accessible_def)
qed

lemma chain_strdup:
  assumes "chain scm bs"
    and "scm_strdup (Some scm) (Some str) = Return (Some scm') (Inr p)"
  shows "chain scm' (bs @ [(p, load_u64 (mem scm') (p - 8))])"
proof -
  define e where "e = base scm + unat (utilized scm)"
  have o: "opened scm" and lay: "layout (base scm) bs e" and st: "sizes_stored (mem scm) bs"
    and pg: "list_all (\<lambda>(p, n). p \<le> mapped scm + map_len (capacity scm)) bs"
    and u: "unat (utilized scm) < 2 ^ 48"
    using assms(1) by (simp_all add: chain_def e_def)
  from scm_strdup_Return [OF o u assms(2) e_def] obtain s1 s2 where
    s1: "string_at scm (store_u64 (mem scm) e 1) str = Some s1"
    and s2: "string_at scm (store_u64 (store_u64 (mem scm) e 1) (e + 8) (of_nat (length s1) + 1))
      str = Some s2"
    and fit: "e + 16 + (length s2 + 1) \<le> mapped scm + map_len (capacity scm)"
    and p: "p = e + 16"
    and scm': "scm' = scm\<lparr>utilized := utilized scm + (of_nat (length s1) + 1 + 16),
        mem := store_u32
          (store_bytes
            (store_u64 (store_u64 (mem scm) e 1) (e + 8) (of_nat (length s1) + 1))
            (e + 16) (s2 @ [0]))
          (mapped scm + 4) (ucast (utilized scm + (of_nat (length s1) + 1 + 16)))\<rparr>"
    by blast
  define n :: size_t where "n = of_nat (length s1) + 1"
  have hdr: "mapped scm + 8 = base scm"
    using o by (simp add: opened_def INT_SIZE_def)
  have top: "mapped scm + map_len (capacity scm) < 2 ^ 47"
    by (rule opened_top [OF o])
  have len: "length s1 + 1 \<le> map_len (capacity scm)"
    using string_at_length [OF s1 s2] fit hdr by (auto simp: e_def)
  have n: "unat n = length s1 + 1"
  proof -
    have small: "length s1 + 1 < 2 ^ 64"
      using len top by simp
    then have "unat (of_nat (length s1) :: size_t) = length s1"
      by (simp add: unat_of_nat)
    moreover have "unat (1 :: size_t) = 1" by simp
    ultimately show ?thesis
      unfolding n_def using small by (subst unat_add_lem [THEN iffD1]) simp_all
  qed
  have ufit: "unat (utilized scm) + 24 \<le> map_len (capacity scm)"
    using fit hdr by (simp add: e_def)
  have old: "load_u64 (mem scm') (q - 8) = load_u64 (mem scm) (q - 8)" if "(q, k) \<in> set bs" for q k
  proof -
    have "base scm + 16 \<le> q" "q + unat k \<le> e"
      using layout_member [OF lay that] by simp_all
    then show ?thesis
      using hdr
      by (simp add: scm' load_u64_store_u32_disjoint load_u64_store_bytes_disjoint
          load_u64_store_u64_disjoint)
  qed
  have "p - 8 = e + 8"
    by (simp add: p)
  moreover have "load_u64 (mem scm') (e + 8) = n"
    using hdr
    by (simp add: scm' e_def n_def load_u64_store_u32_disjoint load_u64_store_bytes_disjoint)
  ultimately have new: "load_u64 (mem scm') (p - 8) = n"
    by (simp only:)
  have un: "unat (utilized scm + (n + 16)) = unat (utilized scm) + unat n + 16"
  proof -
    have "unat (utilized scm) + unat n + 16 < 2 ^ 64"
      using ufit len n top by simp
    from no_wrap [OF this] show ?thesis by (simp add: add.assoc)
  qed
  have "base scm' + unat (utilized scm') = e + 16 + unat n"
    using un by (simp add: scm' e_def n_def)
  moreover have "opened scm'"
    using o by (simp add: scm' opened_def)
  moreover have "layout (base scm') (bs @ [(p, n)]) (e + 16 + unat n)"
    using layout_append [OF lay, of n] by (simp add: scm' p)
  moreover have "sizes_stored (mem scm') (bs @ [(p, n)])"
    by (rule sizes_stored_append [OF sizes_stored_cong [OF st old] new])
  moreover have "list_all (\<lambda>(p, n). p \<le> mapped scm' + map_len (capacity scm')) (bs @ [(p, n)])"
    using pg fit by (simp add: scm' p)
  moreover have "unat (utilized scm') < 2 ^ 48"
  proof -
    have "unat (utilized scm') = unat (utilized scm) + unat n + 16"
      using un by (simp add: scm' n_def)
    then show ?thesis
      using ufit len n top by simp
  qed
  ultimately show ?thesis
    by (simp add: chain_def new)
qed

text \<open>On a chain the scan of \<^verbatim>\<open>scm_free\<close> ends, and finds exactly the payload addresses.\<close>

lemma chain_scan:
  assumes "chain scm bs"
  shows "scm_free_loop scm (ptr_add (scm_mbase (Some scm)) (unat (utilized scm))) p
      (scm_mbase (Some scm)) = Some (if p \<in> fst ` set bs then Found else NotFound)"
proof (cases "utilized scm = 0")
  case True
  then have "bs = []"
    using assms layout_empty [of "base scm" bs] by (simp add: chain_def)
  moreover have "ptr_add (base scm) 0 = base scm"
    using opened_top [OF chain_opened [OF assms]] chain_base [OF assms]
    by (simp add: ptr_add_def)
  moreover have "scm_free_loop scm (base scm) p (base scm) = Some NotFound"
    by (rule scm_free_loop_empty) simp
  ultimately show ?thesis
    using True by simp
next
  case False
  have lay: "layout (base scm) bs (base scm + unat (utilized scm))"
    and st: "sizes_stored (mem scm) bs"
    and pg: "list_all (\<lambda>(p, n). p \<le> mapped scm + map_len (capacity scm)) bs"
    and u: "unat (utilized scm) < 2 ^ 48"
    using assms by (simp_all add: chain_def)
  have b: "base scm = mapped scm + 8" and top: "mapped scm + map_len (capacity scm) < 2 ^ 47"
    using chain_base [OF assms] opened_top [OF chain_opened [OF assms]] by simp_all
  have small: "base scm + unat (utilized scm) + 16 < 2 ^ 64"
    using b top u by simp
  have start: "scm_mbase (Some scm) = base scm + 16"
    using False small by (simp add: ptr_add_no_wrap)
  have limit: "ptr_add (base scm + 16) (unat (utilized scm)) = base scm + unat (utilized scm) + 16"
    using small by (simp add: ptr_add_no_wrap)
  have "scm_free_loop scm (base scm + unat (utilized scm) + 16) p (base scm + 16)
      = Some (if p \<in> fst ` set bs then Found else NotFound)"
    using lay st pg _ small by (rule scan_chain) (simp add: b)
  then show ?thesis
    by (simp only: start limit)
qed

lemma scm_free_found:
  assumes "chain scm bs" and "(p, n) \<in> set bs"
  shows "scm_free (Some scm) p =
    Return (Some (scm\<lparr>mem := store_u64 (mem scm) (p - 16) 0\<rparr>)) ()"
proof -
  have lay: "layout (base scm) bs (base scm + unat (utilized scm))"
    and pg: "list_all (\<lambda>(p, n). p \<le> mapped scm + map_len (capacity scm)) bs"
    using assms(1) by (simp_all add: chain_def)
  have b: "base scm = mapped scm + 8" and top: "mapped scm + map_len (capacity scm) < 2 ^ 47"
    using chain_base [OF assms(1)] opened_top [OF chain_opened [OF assms(1)]] by simp_all
  have lo: "base scm + 16 \<le> p"
    using layout_member [OF lay assms(2)] by simp
  have hi: "p \<le> mapped scm + map_len (capacity scm)"
    using pg assms(2) by (auto simp: list_all_iff)
  have bk: "ptr_sub p 16 = p - 16"
    using lo hi top by (intro ptr_sub_no_wrap) simp_all
  have acc: "accessible scm (p - 16) 8"
    unfolding accessible_def using lo hi b by arith
  have "p \<in> fst ` set bs"
    using assms(2) by force
  then have "scm_free_loop scm (ptr_add (scm_mbase (Some scm)) (unat (utilized scm))) p
      (scm_mbase (Some scm)) = Some Found"
    using chain_scan [OF assms(1), of p] by simp
  then show ?thesis
    using acc by (simp add: bk del: scm_mbase.simps)
qed

lemma scm_free_unfound:
  assumes "chain scm bs" and "p \<notin> fst ` set bs"
  shows "scm_free (Some scm) p = Return (Some scm) ()"
proof -
  have "scm_free_loop scm (ptr_add (scm_mbase (Some scm)) (unat (utilized scm))) p
      (scm_mbase (Some scm)) = Some NotFound"
    using chain_scan [OF assms(1), of p] assms(2) by simp
  then show ?thesis
    by (simp del: scm_mbase.simps)
qed

lemma chain_free:
  assumes "chain scm bs" and "scm_free (Some scm) q = Return (Some scm') ()"
  shows "chain scm' bs"
proof (cases "q \<in> fst ` set bs")
  case True
  then obtain k where q: "(q, k) \<in> set bs" by auto
  have lay: "layout (base scm) bs (base scm + unat (utilized scm))"
    and st: "sizes_stored (mem scm) bs" and o: "opened scm"
    and pg: "list_all (\<lambda>(p, n). p \<le> mapped scm + map_len (capacity scm)) bs"
    and u: "unat (utilized scm) < 2 ^ 48"
    using assms(1) by (simp_all add: chain_def)
  have scm': "scm' = scm\<lparr>mem := store_u64 (mem scm) (q - 16) 0\<rparr>"
    using assms(2) by (simp add: scm_free_found [OF assms(1) q] del: scm_free.simps)
  have old: "load_u64 (mem scm') (p - 8) = load_u64 (mem scm) (p - 8)" if "(p, n) \<in> set bs" for p n
  proof -
    have "16 \<le> q" "16 \<le> p"
      using layout_member [OF lay q] layout_member [OF lay that] by simp_all
    moreover have "q \<le> p \<or> p + unat n + 16 \<le> q"
      by (rule layout_apart_cases [OF lay that q])
    ultimately have "p - 8 + 8 \<le> q - 16 \<or> q - 16 + 8 \<le> p - 8"
      by arith
    then show ?thesis
      by (simp add: scm' load_u64_store_u64_disjoint)
  qed
  show ?thesis
    using o lay pg u sizes_stored_cong [OF st old] by (simp add: chain_def scm' opened_def)
next
  case False
  then show ?thesis
    using assms by (simp add: scm_free_unfound [OF assms(1)] del: scm_free.simps)
qed

lemma chain_write:
  assumes "chain scm bs" and "(p, n) \<in> set bs" and "p \<le> x" and "x < p + unat n"
  shows "chain (scm\<lparr>mem := (mem scm)(x := b)\<rparr>) bs"
proof -
  have lay: "layout (base scm) bs (base scm + unat (utilized scm))"
    and st: "sizes_stored (mem scm) bs" and o: "opened scm"
    and pg: "list_all (\<lambda>(p, n). p \<le> mapped scm + map_len (capacity scm)) bs"
    and u: "unat (utilized scm) < 2 ^ 48"
    using assms(1) by (simp_all add: chain_def)
  have old: "load_u64 ((mem scm)(x := b)) (q - 8) = load_u64 (mem scm) (q - 8)"
    if "(q, k) \<in> set bs" for q k
  proof (rule load_u64_cong)
    fix i :: nat
    assume i: "i < 8"
    have "16 \<le> q"
      using layout_member [OF lay that] by simp
    moreover have "q \<le> p \<or> p + unat n + 16 \<le> q"
      by (rule layout_apart_cases [OF lay assms(2) that])
    ultimately have "q - 8 + i \<noteq> x"
      using i assms(3,4) by arith
    then show "((mem scm)(x := b)) (q - 8 + i) = mem scm (q - 8 + i)"
      by simp
  qed
  show ?thesis
    using o lay pg u sizes_stored_cong [OF st old] by (simp add: chain_def opened_def)
qed

text \<open>
  Every handle that \<^verbatim>\<open>scm_open\<close> opened empty and that allocations within the capacity,
  string duplications, frees and writes into payloads have changed since keeps its blocks
  in a chain.
\<close>

lemma history_chain: "history scm bs \<Longrightarrow> chain scm bs"
proof (induction rule: history.induct)
  case (after_open s truncate' scm)
  then show ?case by (rule chain_open)
next
  case (after_malloc scm bs sz scm' p)
  show ?case
    by (rule chain_malloc [OF after_malloc.IH after_malloc.hyps(2,3)])
next
  case (after_strdup scm bs str scm' p)
  show ?case
    by (rule chain_strdup [OF after_strdup.IH after_strdup.hyps(2)])
next
  case (after_free scm bs q scm')
  show ?case
    by (rule chain_free [OF after_free.IH after_free.hyps(2)])
next
  case (after_write scm bs p n x b)
  show ?case
    by (rule chain_write [OF after_write.IH after_write.hyps(2,3,4)])
qed

subsection \<open>\<^verbatim>\<open>scm_free\<close> on a handle with a history\<close>

text \<open>On the payload address of a block, \<^verbatim>\<open>scm_free\<close> clears the in-use word of the block.\<close>

lemma scm_free_allocated:
  assumes "history scm bs" and "(p, n) \<in> set bs"
  shows "scm_free (Some scm) p =
    Return (Some (scm\<lparr>mem := store_u64 (mem scm) (p - 16) 0\<rparr>)) ()"
  by (rule scm_free_found [OF history_chain [OF assms(1)] assms(2)])

text \<open>
  That word lies behind the Arena Header, and outside the header and the payload of every
  other block.
\<close>

lemma in_use_word_apart:
  assumes "history scm bs" and "(p, n) \<in> set bs" and "(q, k) \<in> set bs" and "q \<noteq> p"
  shows "mapped scm + 8 \<le> p - 16 \<and> (q + unat k \<le> p - 16 \<or> p - 8 \<le> q - 16)"
proof -
  have c: "chain scm bs"
    by (rule history_chain [OF assms(1)])
  then have lay: "layout (base scm) bs (base scm + unat (utilized scm))"
    by (simp add: chain_def)
  have b: "mapped scm + 8 = base scm"
    using c by (auto simp: chain_def opened_def INT_SIZE_def)
  have "base scm + 16 \<le> p"
    using layout_member [OF lay assms(2)] by simp
  moreover have "p \<le> q \<or> q + unat k + 16 \<le> p"
    by (rule layout_apart_cases [OF lay assms(3,2)])
  moreover have "q \<le> p \<or> p + unat n + 16 \<le> q"
    by (rule layout_apart_cases [OF lay assms(2,3)])
  ultimately show ?thesis
    using b assms(4) by arith
qed

text \<open>
  A returning \<^verbatim>\<open>scm_free\<close> changes no field of the handle and no byte outside the in-use word
  in front of the address.
\<close>

lemma scm_free_history_frame:
  assumes "history scm bs"
  shows "\<exists>scm'. scm_free (Some scm) p = Return (Some scm') ()
     \<and> utilized scm' = utilized scm \<and> capacity scm' = capacity scm \<and> base scm' = base scm
     \<and> mapped scm' = mapped scm \<and> fd scm' = fd scm
     \<and> (\<forall>x. x < p - 16 \<or> p - 8 \<le> x \<longrightarrow> mem scm' x = mem scm x)"
proof (cases "p \<in> fst ` set bs")
  case True
  then obtain n where p: "(p, n) \<in> set bs" by auto
  have "layout (base scm) bs (base scm + unat (utilized scm))"
    using history_chain [OF assms] by (simp add: chain_def)
  from layout_member [OF this p] have "16 \<le> p"
    by simp
  then have "store_u64 (mem scm) (p - 16) 0 x = mem scm x" if "x < p - 16 \<or> p - 8 \<le> x" for x
    using that by (intro store_u64_outside) auto
  then show ?thesis
    by (simp add: scm_free_allocated [OF assms p] del: scm_free.simps)
next
  case False
  then show ?thesis
    by (simp add: scm_free_unfound [OF history_chain [OF assms]] del: scm_free.simps)
qed

text \<open>A second \<^verbatim>\<open>scm_free\<close> on the same address leaves the state of the first.\<close>

lemma scm_free_twice:
  assumes "history scm bs" and "scm_free (Some scm) p = Return (Some scm') ()"
  shows "scm_free (Some scm') p = Return (Some scm') ()"
proof (cases "p \<in> fst ` set bs")
  case True
  then obtain n where p: "(p, n) \<in> set bs" by auto
  have scm': "scm' = scm\<lparr>mem := store_u64 (mem scm) (p - 16) 0\<rparr>"
    using assms(2) by (simp add: scm_free_allocated [OF assms(1) p] del: scm_free.simps)
  have "history scm' bs"
    by (rule after_free [OF assms])
  from scm_free_allocated [OF this p] show ?thesis
    by (simp add: scm' store_u64_twice del: scm_free.simps)
next
  case False
  have "scm' = scm"
    using assms(2) by (simp add: scm_free_unfound [OF history_chain [OF assms(1)] False]
        del: scm_free.simps)
  then show ?thesis
    using scm_free_unfound [OF history_chain [OF assms(1)] False] by simp
qed

text \<open>
  On any other address \<^verbatim>\<open>scm_free\<close> changes nothing: so on the handle's \<open>base\<close>, on an address
  past the utilized space, and one byte off a payload address.
\<close>

lemma scm_free_unallocated:
  assumes "history scm bs" and "p \<notin> fst ` set bs"
  shows "scm_free (Some scm) p = Return (Some scm) ()"
  by (rule scm_free_unfound [OF history_chain [OF assms(1)] assms(2)])

lemma scm_free_outside_range:
  assumes "history scm bs"
    and "p < base scm + 16 \<or> base scm + 16 + unat (utilized scm) \<le> p"
  shows "scm_free (Some scm) p = Return (Some scm) ()"
proof (rule scm_free_unallocated [OF assms(1)])
  have lay: "layout (base scm) bs (base scm + unat (utilized scm))"
    using history_chain [OF assms(1)] by (simp add: chain_def)
  show "p \<notin> fst ` set bs"
  proof
    assume "p \<in> fst ` set bs"
    then obtain n where "(p, n) \<in> set bs" by auto
    from layout_member [OF lay this] assms(2) show False
      by auto
  qed
qed

lemma scm_free_base:
  assumes "history scm bs"
  shows "scm_free (Some scm) (base scm) = Return (Some scm) ()"
  by (rule scm_free_outside_range [OF assms]) simp

lemma scm_free_off_by_one:
  assumes "history scm bs" and "(p, n) \<in> set bs"
  shows "scm_free (Some scm) (p + 1) = Return (Some scm) ()"
    and "scm_free (Some scm) (p - 1) = Return (Some scm) ()"
proof -
  have lay: "layout (base scm) bs (base scm + unat (utilized scm))"
    using history_chain [OF assms(1)] by (simp add: chain_def)
  have p: "16 \<le> p"
    using layout_member [OF lay assms(2)] by simp
  have "p + 1 \<notin> fst ` set bs"
  proof
    assume "p + 1 \<in> fst ` set bs"
    then obtain k where "(p + 1, k) \<in> set bs" by auto
    from layout_apart [OF lay assms(2) this] have "p + unat n + 16 \<le> p + 1" by simp
    then show False by simp
  qed
  then show "scm_free (Some scm) (p + 1) = Return (Some scm) ()"
    by (rule scm_free_unallocated [OF assms(1)])
  have "p - 1 \<notin> fst ` set bs"
  proof
    assume "p - 1 \<in> fst ` set bs"
    then obtain k where "(p - 1, k) \<in> set bs" by auto
    from layout_apart [OF lay this assms(2)] p have "p - 1 + unat k + 16 \<le> p" by simp
    then show False using p by simp
  qed
  then show "scm_free (Some scm) (p - 1) = Return (Some scm) ()"
    by (rule scm_free_unallocated [OF assms(1)])
qed

subsection \<open>The Arena Header of a handle with a history\<close>

lemma sentinel_malloc:
  assumes "chain scm bs" and "scm_malloc (Some scm) sz = Return (Some scm') r"
  shows "load_u32 (mem scm') (mapped scm') = load_u32 (mem scm) (mapped scm)"
proof (cases r)
  case (Inl e)
  then show ?thesis
    using assms(2) scm_malloc_failure_unchanged [of "Some scm" sz "Some scm'" e] by simp
next
  case (Inr p)
  have o: "opened scm" and u: "unat (utilized scm) < 2 ^ 48"
    using assms(1) by (simp_all add: chain_def)
  have "mapped scm + 8 \<le> base scm + unat (utilized scm)"
    using opened_base [OF o] by simp
  then show ?thesis
    using scm_malloc_Return [OF o u assms(2) [unfolded Inr]]
    by (simp add: load_u32_store_u32_disjoint load_u32_store_u64_disjoint)
qed

lemma sentinel_strdup:
  assumes "chain scm bs" and "scm_strdup (Some scm) (Some str) = Return (Some scm') (Inr p)"
  shows "load_u32 (mem scm') (mapped scm') = load_u32 (mem scm) (mapped scm)"
proof -
  have o: "opened scm" and u: "unat (utilized scm) < 2 ^ 48"
    using assms(1) by (simp_all add: chain_def)
  have "mapped scm + 8 \<le> base scm + unat (utilized scm)"
    using opened_base [OF o] by simp
  then show ?thesis
    using scm_strdup_Return [OF o u assms(2) refl]
    by (auto simp: load_u32_store_u32_disjoint load_u32_store_u64_disjoint
        load_u32_store_bytes_disjoint)
qed

lemma scm_free_header:
  assumes "chain scm bs" and "scm_free (Some scm) p = Return (Some scm') ()"
  shows "header_utilized scm' = header_utilized scm
    \<and> load_u32 (mem scm') (mapped scm') = load_u32 (mem scm) (mapped scm)
    \<and> utilized scm' = utilized scm"
proof (cases "p \<in> fst ` set bs")
  case True
  then obtain n where p: "(p, n) \<in> set bs" by auto
  have lay: "layout (base scm) bs (base scm + unat (utilized scm))"
    using assms(1) by (simp add: chain_def)
  have "mapped scm + 8 \<le> p - 16"
    using layout_member [OF lay p] chain_base [OF assms(1)] by arith
  then have "load_u32 (store_u64 (mem scm) (p - 16) 0) (mapped scm + 4) =
      load_u32 (mem scm) (mapped scm + 4)"
    and "load_u32 (store_u64 (mem scm) (p - 16) 0) (mapped scm) = load_u32 (mem scm) (mapped scm)"
    by (intro load_u32_store_u64_disjoint; simp)+
  then show ?thesis
    using assms(2)
    by (auto simp: scm_free_found [OF assms(1) p] header_utilized_def simp del: scm_free.simps)
next
  case False
  then show ?thesis
    using assms(2) by (simp add: scm_free_unfound [OF assms(1)] del: scm_free.simps)
qed

text \<open>Below \<open>2^31\<close> the header word, read back as \<^verbatim>\<open>scm_open\<close> reads it, is \<open>utilized\<close>.\<close>

lemma header_equal_below:
  assumes "header_utilized scm = ucast (utilized scm)" and "unat (utilized scm) < 2 ^ 31"
  shows "scast (header_utilized scm) = utilized scm"
  using assms scast_ucast_small by simp

text \<open>
  After every call the Arena Header holds the sentinel and the low 32 bits of \<open>utilized\<close>.
\<close>

lemma history_header:
  "history scm bs \<Longrightarrow>
    load_u32 (mem scm) (mapped scm) = 1 \<and> header_utilized scm = ucast (utilized scm)"
proof (induction rule: history.induct)
  case (after_open s truncate' scm)
  then show ?case
    using scm_open_header by blast
next
  case (after_malloc scm bs sz scm' p)
  have c: "chain scm bs"
    by (rule history_chain [OF after_malloc.hyps(1)])
  show ?case
    using sentinel_malloc [OF c after_malloc.hyps(3)]
      header_low_bits_malloc [OF chain_opened [OF c] _ after_malloc.hyps(3)] after_malloc.IH
    by simp
next
  case (after_strdup scm bs str scm' p)
  have c: "chain scm bs"
    by (rule history_chain [OF after_strdup.hyps(1)])
  show ?case
    using sentinel_strdup [OF c after_strdup.hyps(2)]
      header_low_bits_strdup [OF chain_opened [OF c] _ after_strdup.hyps(2)] after_strdup.IH
    by simp
next
  case (after_free scm bs q scm')
  have c: "chain scm bs"
    by (rule history_chain [OF after_free.hyps(1)])
  show ?case
    using scm_free_header [OF c after_free.hyps(2)] after_free.IH
    by simp
next
  case (after_write scm bs p n x b)
  have c: "chain scm bs"
    by (rule history_chain [OF after_write.hyps(1)])
  then have "layout (base scm) bs (base scm + unat (utilized scm))"
    by (simp add: chain_def)
  from layout_member [OF this after_write.hyps(2)] have "base scm + 16 \<le> p" ..
  moreover have "mapped scm + 8 = base scm"
    using c by (auto simp: chain_def opened_def INT_SIZE_def)
  ultimately have x: "mapped scm + 8 \<le> x"
    using after_write.hyps(3) by simp
  have "load_u32 ((mem scm)(x := b)) (mapped scm) = load_u32 (mem scm) (mapped scm)"
    using x by (intro load_u32_cong) simp
  moreover have "load_u32 ((mem scm)(x := b)) (mapped scm + 4) = load_u32 (mem scm) (mapped scm + 4)"
    using x by (intro load_u32_cong) simp
  ultimately show ?case
    using after_write.IH by (simp add: header_utilized_def fun_upd_def)
qed

text \<open>
  Below \<open>2^31\<close> the Arena Header holds the utilization of the handle after every call, and
  closing and reopening without truncation reports it again.
\<close>

lemma history_header_equal:
  assumes "history scm bs" and "unat (utilized scm) < 2 ^ 31"
  shows "scast (header_utilized scm) = utilized scm"
  using history_header [OF assms(1)] assms(2) by (intro header_equal_below) simp_all

lemma history_reopen:
  assumes "history scm bs" and "unat (utilized scm) < 2 ^ 31" and "8 \<le> unat (capacity scm)"
    and "malloc_ok s" and "open_fd s \<noteq> - 1" and "fstat_ok s" and "is_reg s" and "mmap_ok s"
    and "st_size s = capacity scm"
  shows "scm_utilized (scm_open (scm_close s (Some scm)) 0) = utilized scm"
proof -
  have "opened scm"
    using history_chain [OF assms(1)] by (simp add: chain_def)
  then show ?thesis
    using history_header [OF assms(1)] assms(2-9) by (intro reopen_adopts_utilized) simp_all
qed

subsection \<open>Where a block of \<^verbatim>\<open>scm_malloc\<close> ends\<close>

text \<open>
  A block that passes the capacity test without wrapping the sum ends at most \<open>INT_SIZE\<close>
  bytes past the \<open>capacity\<close> bytes of the file.
\<close>

lemma scm_malloc_block_end:
  assumes "opened scm"
    and "unat (utilized scm) + unat sz + 16 \<le> unat (capacity scm)"
    and "scm_malloc (Some scm) sz = Return (Some scm') (Inr p)"
  shows "p + unat sz \<le> mapped scm + unat (capacity scm) + INT_SIZE
    \<and> unat (utilized scm') \<le> unat (capacity scm')"
proof -
  have u: "unat (utilized scm) < 2 ^ 48"
  proof -
    have "unat (utilized scm) \<le> map_len (capacity scm)"
      using assms(2) unat_le_map_len [of "capacity scm"] by simp
    then show ?thesis
      using opened_top [OF assms(1)] by simp
  qed
  note r = scm_malloc_Return [OF assms(1) u assms(3)]
  have "unat (utilized scm') \<le> unat (capacity scm')"
    using r fits_no_wrap(2) [OF assms(2)] assms(2) by simp
  moreover have "base scm = mapped scm + INT_SIZE"
    using assms(1) by (simp add: opened_def)
  ultimately show ?thesis
    using r assms(2) by simp
qed

subsection \<open>A handle with a history\<close>

text \<open>A fresh store of 100 bytes after one allocation of 76 bytes has a history of one block.\<close>

lemma history_example:
  "case scm_malloc (scm_open (blank_file 100) 1) 76 of
     Return (Some scm) (Inr p) \<Rightarrow> p = VIRT_ADDR + 24 \<and> history scm [(p, 76)]
   | _ \<Rightarrow> False"
proof -
  obtain scm0 where scm0: "scm_open (blank_file 100) 1 = Some scm0"
    and f: "base scm0 = VIRT_ADDR + 8" "mapped scm0 = VIRT_ADDR" "utilized scm0 = 0"
      "capacity scm0 = 100"
    by (simp add: open_eval)
  have h0: "history scm0 []"
    by (rule after_open [OF scm0 f(3)])
  have o0: "opened scm0"
    using scm_open_opened [OF scm0] by simp
  have fit: "unat (utilized scm0) + unat (76 :: size_t) + 16 \<le> unat (capacity scm0)"
    using f by simp
  have pages: "INT_SIZE + unat (utilized scm0) + METADATA_SIZE \<le> map_len (capacity scm0)"
    using f by (simp add: INT_SIZE_def METADATA_SIZE_def)
  have nz: "(76 :: size_t) \<noteq> 0" by simp
  note m = scm_malloc_result [OF o0 nz fits_no_wrap(3) [OF fit] pages]
  from after_malloc [OF h0 fit m] show ?thesis
    by (simp add: scm0 m f del: scm_malloc.simps)
qed

subsection \<open>A file without bytes\<close>

text \<open>\<^verbatim>\<open>mmap\<close> refuses a length of 0: \<^verbatim>\<open>scm_open\<close> on an empty file returns \<^verbatim>\<open>NULL\<close>.\<close>

lemma scm_open_empty_file: "scm_open (blank_file 0) truncate' = None"
  by (simp add: scm_open_def blank_file_def)

subsection \<open>A scan that does not end\<close>

lemma scm_free_loop_self_aux:
  assumes "scm_free_loop scm limit p cur = Some y"
  shows "\<not> self_loop scm limit p cur"
proof (rule scm_free_loop.raw_induct
    [where P = "\<lambda>scm limit p cur y. \<not> self_loop scm limit p cur", OF _ assms])
  fix f scm limit p cur y
  assume ih: "\<And>scm limit p cur y. f scm limit p cur = Some y \<Longrightarrow> \<not> self_loop scm limit p cur"
    and eq: "(if cur < limit
      then if cur = p then Some Found
           else if \<not> accessible scm (ptr_add (ptr_sub cur 16) 8) 8 then Some Trapped
                else f scm limit p
                      (ptr_add
                        (ptr_add cur (unat (load_u64 (mem scm) (ptr_add (ptr_sub cur 16) 8))))
                        METADATA_SIZE)
      else Some NotFound) = Some y"
  show "\<not> self_loop scm limit p cur"
  proof
    assume s: "self_loop scm limit p cur"
    then have "f scm limit p cur = Some y"
      using eq by (simp add: self_loop_def)
    from ih [OF this] s show False by simp
  qed
qed

lemma scm_free_loop_self:
  "self_loop scm limit p cur \<Longrightarrow> scm_free_loop scm limit p cur = None"
  using scm_free_loop_self_aux [of scm limit p cur] by (cases "scm_free_loop scm limit p cur") auto

lemma scm_free_diverges:
  assumes "self_loop scm (ptr_add (scm_mbase (Some scm)) (unat (utilized scm))) p
    (scm_mbase (Some scm))"
  shows "scm_free (Some scm) p = Diverges"
  using scm_free_loop_self [OF assms] by (simp del: scm_mbase.simps)

text \<open>
  On a fresh store of 100 bytes with one block of 8 bytes, once the size word of the block
  holds \<open>2^64 - 16\<close>, \<^verbatim>\<open>scm_free\<close> on an address other than the block's does not return.
\<close>

lemma scm_free_diverges_example:
  "case scm_malloc (scm_open (blank_file 100) 1) 8 of
     Return (Some scm) (Inr p) \<Rightarrow>
       p = VIRT_ADDR + 24
       \<and> scm_free (Some (scm\<lparr>mem := store_u64 (mem scm) (VIRT_ADDR + 16) (- 16)\<rparr>))
             (VIRT_ADDR + 48) = Diverges
   | _ \<Rightarrow> False"
proof -
  obtain scm0 where scm0: "scm_open (blank_file 100) 1 = Some scm0"
    and f: "base scm0 = VIRT_ADDR + 8" "mapped scm0 = VIRT_ADDR" "utilized scm0 = 0"
      "capacity scm0 = 100"
    by (simp add: open_eval)
  have o0: "opened scm0"
    using scm_open_opened [OF scm0] by simp
  have fit: "unat (utilized scm0) + unat (8 :: size_t) + 16 \<le> unat (capacity scm0)"
    using f by simp
  have pages: "INT_SIZE + unat (utilized scm0) + METADATA_SIZE \<le> map_len (capacity scm0)"
    using f by (simp add: INT_SIZE_def METADATA_SIZE_def)
  have nz: "(8 :: size_t) \<noteq> 0" by simp
  note m = scm_malloc_result [OF o0 nz fits_no_wrap(3) [OF fit] pages]
  define scm where "scm = scm0\<lparr>utilized := utilized scm0 + (8 + 16),
    mem := store_u32
      (store_u64 (store_u64 (mem scm0) (base scm0 + unat (utilized scm0)) 1)
        (base scm0 + unat (utilized scm0) + 8) 8)
      (mapped scm0 + 4) (ucast (utilized scm0 + (8 + 16)))\<rparr>"
  define bad where "bad = scm\<lparr>mem := store_u64 (mem scm) (VIRT_ADDR + 16) (- 16)\<rparr>"
  have g: "base bad = VIRT_ADDR + 8" "mapped bad = VIRT_ADDR" "utilized bad = 24"
    "capacity bad = 100" "load_u64 (mem bad) (VIRT_ADDR + 16) = - 16"
    by (simp_all add: bad_def scm_def f)
  have "self_loop bad (ptr_add (scm_mbase (Some bad)) (unat (utilized bad))) (VIRT_ADDR + 48)
      (scm_mbase (Some bad))"
    using g by (simp add: self_loop_def ptr_add_def ptr_sub_def accessible_def VIRT_ADDR_def
        METADATA_SIZE_def)
  from scm_free_diverges [OF this]
  have "scm_free (Some (scm\<lparr>mem := store_u64 (mem scm) (VIRT_ADDR + 16) (- 16)\<rparr>))
      (VIRT_ADDR + 48) = Diverges"
    by (simp only: bad_def)
  moreover have "scm_malloc (Some scm0) 8 = Return (Some scm) (Inr (VIRT_ADDR + 24))"
    using m by (simp add: scm_def f del: scm_malloc.simps)
  ultimately show ?thesis
    by (simp only: scm0 outcome.case option.case sum.case simp_thms)
qed

section \<open>The claims\<close>

text \<open>
  C1.  The claim: on an open handle, for a size \<open>sz > 0\<close> with
  \<open>utilized + sz + METADATA_SIZE \<le> capacity\<close>, \<^verbatim>\<open>scm_malloc\<close> returns the payload address of a
  block header it has written at \<open>base + utilized\<close>, and advances \<open>utilized\<close> by
  \<open>sz + METADATA_SIZE\<close>.  The capacity test leaves out the \<open>INT_SIZE\<close> bytes of the Arena
  Header in front of \<open>base\<close>, and nothing else guards the two stores of the block header.  On
  a file of 4096 bytes (one page), an allocation of 4063 bytes returns and leaves
  \<open>utilized = 4079\<close>.  A further allocation of 1 byte passes the test
  (\<open>4079 + 1 + 16 = 4096\<close>) and places its header at offset \<open>8 + 4079 = 4087\<close>: the in-use word
  fits the page, the size word at offsets 4095 to 4102 does not, and
  \<^verbatim>\<open>block_meta[1] = size\<close> kills the process.  With room for the Arena Header as well,
  \<open>INT_SIZE + utilized + sz + METADATA_SIZE \<le> capacity\<close>, the call does what the claim says
  (\<open>scm_malloc_fits\<close>).
\<close>

theorem scm_malloc_crashes_at_page_end:
  "(case scm_malloc (scm_open (blank_file 4096) 1) 4063 of
      Return h (Inr p) \<Rightarrow>
        scm_utilized h = 4079 \<and> scm_capacity h = 4096 \<and> scm_malloc h 1 = Crash
    | _ \<Rightarrow> False)"
  by (simp add: open_eval)

text \<open>
  C2.  The claim: after \<^verbatim>\<open>scm_open\<close> with truncation, successful allocations and
  \<^verbatim>\<open>scm_close\<close>, a second \<^verbatim>\<open>scm_open\<close> without truncation reports the utilization the store
  had before the close.  The Arena Header keeps the counter in an \<^verbatim>\<open>int\<close>.  On a file of
  4 GiB, one allocation of 2 GiB succeeds and leaves \<open>utilized = 2147483664\<close>
  (\<open>2^31 + 16\<close>); the header receives the low 32 bits, and the second \<^verbatim>\<open>scm_open\<close> sign-extends
  them: it reports \<open>18446744071562067984\<close> (\<open>2^64 - 2^31 + 16\<close>).  Below \<open>2^31\<close> the
  utilization is adopted (\<open>history_reopen\<close>), and truncation or a sentinel other than 1
  resets the header (\<open>scm_open_reset\<close>).
\<close>

theorem reopen_truncates_utilized:
  "(case scm_malloc (scm_open (blank_file 4294967296) 1) 2147483648 of
      Return h (Inr p) \<Rightarrow>
        scm_utilized h = 2147483664
        \<and> scm_utilized (scm_open (scm_close (blank_file 4294967296) h) 0) = 18446744071562067984
    | _ \<Rightarrow> False)"
  by (simp add: scm_eval file_image_def mem_eval)

text \<open>
  C3.  The claim: \<^verbatim>\<open>scm_malloc\<close> fails with "Capacity exceeded" exactly when the remaining
  capacity is less than \<open>sz + METADATA_SIZE\<close>, so that once allocations have filled the
  store up to \<open>capacity - INT_SIZE\<close>, a further allocation of any size \<open>\<ge> 1\<close> fails.
  The sum \<^verbatim>\<open>scm->utilized + size + METADATA_SIZE\<close> is computed in \<^verbatim>\<open>size_t\<close> and wraps.  On a file
  of 100 bytes, one allocation of \<open>76 = 100 - 8 - 16\<close> bytes leaves \<open>utilized = 92\<close>; a further
  allocation of \<open>2^64 - 108\<close> bytes makes the sum 0, passes the test, returns an address and
  sets \<open>utilized\<close> to 0.  For sizes that do not wrap the sum the claim holds
  (\<open>scm_malloc_capacity_exceeded_iff\<close>, \<open>scm_malloc_failure_unchanged\<close>,
  \<open>malloc_all_then_full\<close>).
\<close>

theorem scm_malloc_wraps_capacity_check:
  "(case scm_malloc (scm_open (blank_file 100) 1) 76 of
      Return h (Inr p) \<Rightarrow>
        scm_utilized h = 92 \<and> scm_capacity h = 100
        \<and> (case scm_malloc h 18446744073709551508 of
              Return h' r \<Rightarrow> r = Inr (VIRT_ADDR + 116) \<and> scm_utilized h' = 0
            | _ \<Rightarrow> False)
    | _ \<Rightarrow> False)"
  by (simp add: open_eval)

text \<open>
  C4.  The claim: after every mutating call the utilization in the Arena Header equals
  the handle's \<open>utilized\<close>, for every value up to the capacity.  The header word is an
  \<^verbatim>\<open>int\<close> and \<^verbatim>\<open>scm_meta[1] = scm->utilized\<close> keeps the low 32 bits.  On a file of 8 GiB, one
  allocation of 4 GiB leaves \<open>utilized = 4294967312\<close> (\<open>2^32 + 16\<close>) in the handle and 16 in the
  header.  The header always holds the low 32 bits (\<open>history_header\<close>), which is the
  utilization as long as that is below \<open>2^31\<close> (\<open>history_header_equal\<close>).
\<close>

theorem header_truncates_utilized:
  "(case scm_malloc (scm_open (blank_file 8589934592) 1) 4294967296 of
      Return (Some scm) (Inr p) \<Rightarrow> utilized scm = 4294967312 \<and> header_utilized scm = 16
    | _ \<Rightarrow> False)"
  by (simp add: open_eval header_utilized_def)

text \<open>
  C5, as it holds.  On an open handle, let the string at \<open>str\<close> be \<open>s\<close>, let it not overlap
  the \<open>METADATA_SIZE + strlen + 1\<close> bytes of the new block at \<open>base + utilized\<close>, and let
  that block end within the mapped pages.  Then \<^verbatim>\<open>scm_strdup\<close> does what \<^verbatim>\<open>scm_malloc\<close> of
  \<open>strlen + 1\<close> bytes followed by \<^verbatim>\<open>strcpy\<close> into the payload does: the block header at
  \<open>base + utilized\<close> holds 1 and \<open>strlen + 1\<close>, \<open>utilized\<close> advances by
  \<open>strlen + 1 + METADATA_SIZE\<close> and is published to the Arena Header, and the string read at
  the returned address is \<open>s\<close>.  There is no hypothesis on the capacity: where \<^verbatim>\<open>scm_malloc\<close>
  returns an address the two final states are equal, and where \<^verbatim>\<open>scm_malloc\<close> refuses
  (leaving the handle as it was), \<^verbatim>\<open>scm_strdup\<close> has made the block all the same.
\<close>

theorem scm_strdup_as_malloc:
  assumes "opened scm"
    and "string_at scm (mem scm) str = Some s"
    and "INT_SIZE + unat (utilized scm) + METADATA_SIZE + (length s + 1) \<le> map_len (capacity scm)"
    and "clear_of str (length s + 1) (base scm + unat (utilized scm))
           (METADATA_SIZE + (length s + 1))"
  shows "case scm_strdup (Some scm) (Some str) of
           Return (Some scm') (Inr p) \<Rightarrow>
             p = base scm + unat (utilized scm) + METADATA_SIZE
             \<and> load_u64 (mem scm') (p - 16) = 1
             \<and> load_u64 (mem scm') (p - 8) = of_nat (length s) + 1
             \<and> utilized scm' = utilized scm + (of_nat (length s) + 1 + of_nat METADATA_SIZE)
             \<and> header_utilized scm' = ucast (utilized scm')
             \<and> c_string_at scm' (mem scm') p = Some s
             \<and> (case scm_malloc (Some scm) (of_nat (length s) + 1) of
                   Return (Some scm1) (Inr q) \<Rightarrow>
                     q = p \<and> scm' = scm1\<lparr>mem := store_bytes (mem scm1) q (s @ [0])\<rparr>
                 | Return h (Inl e) \<Rightarrow> h = Some scm
                 | _ \<Rightarrow> False)
         | _ \<Rightarrow> False"
proof -
  define a where "a = base scm + unat (utilized scm)"
  define n :: size_t where "n = of_nat (length s) + 1"
  define m2 where "m2 = store_u64 (store_u64 (mem scm) a 1) (a + 8) n"
  define u where "u = utilized scm + (n + 16)"
  define scm' where
    "scm' = scm\<lparr>utilized := u,
       mem := store_u32 (store_bytes m2 (a + 16) (s @ [0])) (mapped scm + 4) (ucast u)\<rparr>"
  have res: "scm_strdup (Some scm) (Some str) = Return (Some scm') (Inr (a + 16))"
    by (simp only: scm_strdup_result [OF assms] scm'_def u_def m2_def n_def a_def)
  have b: "base scm = mapped scm + 8"
    by (rule opened_base [OF assms(1)])
  have hdr: "mapped scm + 8 \<le> a"
    using b by (simp add: a_def)
  have fit: "a + 16 + (length s + 1) \<le> mapped scm + map_len (capacity scm)"
    using assms(3) b by (simp add: INT_SIZE_def METADATA_SIZE_def a_def)
  have c1: "load_u64 (mem scm') (a + 16 - 16) = 1"
    using hdr
    by (simp add: scm'_def m2_def load_u64_store_u32_disjoint load_u64_store_bytes_disjoint
        load_u64_store_u64_disjoint)
  have c2: "load_u64 (mem scm') (a + 16 - 8) = n"
    using hdr
    by (simp add: scm'_def m2_def load_u64_store_u32_disjoint load_u64_store_bytes_disjoint
        add.commute [of 8 a])
  have c3: "utilized scm' = utilized scm + (n + 16)"
    by (simp add: scm'_def u_def)
  have c4: "header_utilized scm' = ucast (utilized scm')"
    by (simp add: scm'_def header_utilized_def)
  have c5: "c_string_at scm' (mem scm') (a + 16) = Some s"
  proof (rule c_string_at_intro)
    show "accessible scm' (a + 16) (length s + 1)"
      using fit hdr by (simp add: accessible_def scm'_def)
    show "\<forall>i<length s. mem scm' (a + 16 + i) = s ! i"
    proof (intro allI impI)
      fix i assume i: "i < length s"
      have "mem scm' (a + 16 + i) = store_bytes m2 (a + 16) (s @ [0]) (a + 16 + i)"
        using hdr by (simp add: scm'_def store_u32_outside)
      also have "\<dots> = (s @ [0]) ! i"
        using i by (intro store_bytes_inside) simp
      finally show "mem scm' (a + 16 + i) = s ! i"
        using i by (simp add: nth_append)
    qed
    show "0 \<notin> set s"
      by (rule string_at_no_zero [OF assms(2)])
    have "mem scm' (a + 16 + length s) = store_bytes m2 (a + 16) (s @ [0]) (a + 16 + length s)"
      using hdr by (simp add: scm'_def store_u32_outside)
    also have "\<dots> = (s @ [0]) ! length s"
      by (intro store_bytes_inside) simp
    finally show "mem scm' (a + 16 + length s) = 0"
      by simp
  qed
  have pages: "INT_SIZE + unat (utilized scm) + METADATA_SIZE \<le> map_len (capacity scm)"
    using assms(3) by simp
  have c6: "case scm_malloc (Some scm) n of
              Return (Some scm1) (Inr q) \<Rightarrow>
                q = a + 16 \<and> scm' = scm1\<lparr>mem := store_bytes (mem scm1) q (s @ [0])\<rparr>
            | Return h (Inl e) \<Rightarrow> h = Some scm
            | _ \<Rightarrow> False"
  proof (cases "n = 0 \<or> capacity scm < utilized scm + n + 16")
    case True
    then show ?thesis
      by (auto simp: Let_def METADATA_SIZE_def)
  next
    case False
    then have nz: "n \<noteq> 0" and t: "\<not> capacity scm < utilized scm + n + 16"
      by simp_all
    show ?thesis
      using hdr
      by (simp add: scm_malloc_result [OF assms(1) nz t pages] a_def [symmetric]
          m2_def [symmetric] u_def [symmetric] scm'_def store_u32_store_bytes_commute
          del: scm_malloc.simps)
  qed
  show ?thesis
    unfolding res n_def [symmetric]
    using c1 c2 c3 c4 c5 c6
    by (simp add: METADATA_SIZE_def a_def [symmetric] del: scm_malloc.simps One_nat_def)
qed

theorem scm_strdup_as_malloc_witness:
  "case scm_open (blank_file 100) 1 of
     None \<Rightarrow> False
   | Some scm \<Rightarrow>
       opened scm
       \<and> string_at scm (mem scm) (Elsewhere [97, 98, 99, 0, 100]) = Some [97, 98, 99]
       \<and> (case scm_strdup (Some scm) (Some (Elsewhere [97, 98, 99, 0, 100])) of
             Return (Some scm') (Inr p) \<Rightarrow>
               p = VIRT_ADDR + 24
               \<and> load_u64 (mem scm') (p - 16) = 1
               \<and> load_u64 (mem scm') (p - 8) = 4
               \<and> utilized scm' = 20
               \<and> header_utilized scm' = ucast (utilized scm')
               \<and> c_string_at scm' (mem scm') p = Some [97, 98, 99]
           | _ \<Rightarrow> False)"
proof -
  let ?str = "Elsewhere [97, 98, 99, 0, 100]"
  let ?s = "[97, 98, 99] :: byte list"
  obtain scm where scm: "scm_open (blank_file 100) 1 = Some scm"
    and f: "base scm = VIRT_ADDR + 8" "mapped scm = VIRT_ADDR" "utilized scm = 0"
      "capacity scm = 100"
    by (simp add: open_eval)
  have o: "opened scm"
    using f by (simp add: opened_def INT_SIZE_def TASK_SIZE_def VIRT_ADDR_def)
  have s: "string_at scm (mem scm) ?str = Some ?s"
    by (simp add: c_str_def)
  have fit: "INT_SIZE + unat (utilized scm) + METADATA_SIZE + (length ?s + 1)
      \<le> map_len (capacity scm)"
    using f by (simp add: INT_SIZE_def METADATA_SIZE_def)
  have clear: "clear_of ?str (length ?s + 1) (base scm + unat (utilized scm))
      (METADATA_SIZE + (length ?s + 1))"
    by simp
  have "case scm_strdup (Some scm) (Some ?str) of
           Return (Some scm') (Inr p) \<Rightarrow>
             p = base scm + unat (utilized scm) + METADATA_SIZE
             \<and> load_u64 (mem scm') (p - 16) = 1
             \<and> load_u64 (mem scm') (p - 8) = of_nat (length ?s) + 1
             \<and> utilized scm' = utilized scm + (of_nat (length ?s) + 1 + of_nat METADATA_SIZE)
             \<and> header_utilized scm' = ucast (utilized scm')
             \<and> c_string_at scm' (mem scm') p = Some ?s
             \<and> (case scm_malloc (Some scm) (of_nat (length ?s) + 1) of
                   Return (Some scm1) (Inr q) \<Rightarrow>
                     q = p \<and> scm' = scm1\<lparr>mem := store_bytes (mem scm1) q (?s @ [0])\<rparr>
                 | Return h (Inl e) \<Rightarrow> h = Some scm
                 | _ \<Rightarrow> False)
         | _ \<Rightarrow> False"
    by (rule scm_strdup_as_malloc [OF o s fit clear])
  then obtain scm' p where e: "scm_strdup (Some scm) (Some ?str) = Return (Some scm') (Inr p)"
    and r: "p = base scm + unat (utilized scm) + METADATA_SIZE"
      "load_u64 (mem scm') (p - 16) = 1"
      "load_u64 (mem scm') (p - 8) = of_nat (length ?s) + 1"
      "utilized scm' = utilized scm + (of_nat (length ?s) + 1 + of_nat METADATA_SIZE)"
      "header_utilized scm' = ucast (utilized scm')"
      "c_string_at scm' (mem scm') p = Some ?s"
    by (cases "scm_strdup (Some scm) (Some ?str)")
      (auto simp del: scm_strdup.simps scm_malloc.simps split: option.splits sum.splits)
  have "p = VIRT_ADDR + 24" "load_u64 (mem scm') (p - 8) = 4" "utilized scm' = 20"
    using r by (simp_all add: f METADATA_SIZE_def)
  then show ?thesis
    using o s r(2,5,6) by (simp add: scm e del: scm_strdup.simps string_at.simps)
qed

text \<open>
  C5 as the claim states it, for every open handle and every string, fails.  On a fresh
  store of 100 bytes (one mapped page) and a string of 4200 bytes, \<^verbatim>\<open>scm_strdup\<close> writes the
  block header and \<^verbatim>\<open>strcpy\<close> then runs off the page: the call is killed, where \<^verbatim>\<open>scm_malloc\<close> of
  4201 bytes returns \<^verbatim>\<open>NULL\<close> with "Capacity exceeded" and leaves the handle as it was.
\<close>

theorem scm_strdup_leaves_pages:
  "scm_strdup (scm_open (blank_file 100) 1) (Some (Elsewhere (replicate 4200 65))) = Crash
   \<and> (case scm_malloc (scm_open (blank_file 100) 1) 4201 of
         Return h r \<Rightarrow> r = Inl CapacityExceeded \<and> h = scm_open (blank_file 100) 1
       | _ \<Rightarrow> False)"
  by (simp add: open_eval c_str_replicate)

text \<open>
  The string is read after the in-use word has been written.  On the same fresh store,
  the address \<open>base\<close> holds a zero byte: the empty string.  \<^verbatim>\<open>scm_strdup\<close> of that address
  writes the in-use word 1 over it and then measures and copies the string it finds there,
  the one byte 1.
\<close>

lemma scm_strdup_reads_own_header:
  "(case scm_open (blank_file 100) 1 of
      None \<Rightarrow> False
    | Some scm \<Rightarrow>
        string_at scm (mem scm) (Mapped (VIRT_ADDR + 8)) = Some []
        \<and> (case scm_strdup (Some scm) (Some (Mapped (VIRT_ADDR + 8))) of
              Return (Some scm') (Inr p) \<Rightarrow>
                p = VIRT_ADDR + 24 \<and> utilized scm' = 18
                \<and> c_string_at scm' (mem scm') p = Some [1]
            | _ \<Rightarrow> False))"
  by (simp add: open_eval c_string_at.simps mem_eval)

text \<open>
  C6.  The claim: \<^verbatim>\<open>scm_free\<close> on an address that \<^verbatim>\<open>scm_malloc\<close> returned on the handle
  clears that block's in-use word (and nothing else).  On a fresh store of 100 bytes,
  \<^verbatim>\<open>scm_malloc\<close> of \<open>2^64 - 16\<close> bytes passes the wrapped capacity test, writes a header with
  in-use word 1 and returns its payload address, with \<open>utilized\<close> still 0.  \<^verbatim>\<open>scm_free\<close> on
  that address then scans an empty range, finds no block and leaves the state as it is:
  the in-use word stays 1.  On a handle whose allocations all passed the capacity test
  without wrapping the claim holds (\<open>scm_free_allocated\<close>, \<open>in_use_word_apart\<close>,
  \<open>scm_free_history_frame\<close>, \<open>scm_free_twice\<close>).
\<close>

theorem scm_free_misses_wrapped_block:
  "(case scm_malloc (scm_open (blank_file 100) 1) 18446744073709551600 of
      Return (Some scm) (Inr p) \<Rightarrow>
        p = VIRT_ADDR + 24 \<and> utilized scm = 0 \<and> load_u64 (mem scm) (p - 16) = 1
        \<and> scm_free (Some scm) p = Return (Some scm) ()
    | _ \<Rightarrow> False)"
  by (simp add: open_eval load_u64_store_u32_disjoint load_u64_store_u64_disjoint
      scm_free_loop.simps)

text \<open>
  C7.  The claim: \<^verbatim>\<open>scm_free\<close> on an address that is no block's payload start, or on a
  \<^verbatim>\<open>NULL\<close> handle, is a silent no-op.  On a \<^verbatim>\<open>NULL\<close> handle, \<^verbatim>\<open>scm_mbase\<close> returns \<^verbatim>\<open>NULL\<close> and the
  loop condition of \<^verbatim>\<open>scm_free\<close> then reads \<^verbatim>\<open>scm->utilized\<close>: the call dereferences \<^verbatim>\<open>NULL\<close>,
  whatever the address.  On a handle that is not \<^verbatim>\<open>NULL\<close> and whose blocks form a chain the
  claim holds (\<open>scm_free_unallocated\<close>, \<open>scm_free_outside_range\<close>, \<open>scm_free_base\<close>,
  \<open>scm_free_off_by_one\<close>).
\<close>

theorem scm_free_null_handle: "scm_mbase None = NULL \<and> scm_free None memory_ptr = Crash"
  by simp

text \<open>
  C8.  The claim: \<^verbatim>\<open>scm_strdup\<close> with a \<^verbatim>\<open>NULL\<close> string or a \<^verbatim>\<open>NULL\<close> handle returns \<^verbatim>\<open>NULL\<close>, the
  test coming before any access to the handle.  The initialiser of
  \<^verbatim>\<open>allocation_metadata\<close> reads \<^verbatim>\<open>scm->base\<close> and \<^verbatim>\<open>scm->utilized\<close> before the test: on a \<^verbatim>\<open>NULL\<close>
  handle the call dereferences \<^verbatim>\<open>NULL\<close>, with a string or without.  With a handle and a
  \<^verbatim>\<open>NULL\<close> string the call returns \<^verbatim>\<open>NULL\<close> and leaves the handle as it was.
\<close>

theorem scm_strdup_null_handle:
  "scm_strdup None (Some str) = Crash \<and> scm_strdup None None = Crash
   \<and> scm_strdup (Some scm) None = Return (Some scm) (Inl InvalidArgument)"
  by simp

text \<open>
  C9.  On an open handle \<^verbatim>\<open>scm_mbase\<close> returns \<open>base\<close> when \<open>utilized\<close> is zero and
  \<open>base + 2 * 8\<close> otherwise.  In the second case the address is the one \<^verbatim>\<open>scm_malloc\<close>
  returns for the first allocation on an empty store, and it is where the scan of
  \<^verbatim>\<open>scm_free\<close> starts: \<^verbatim>\<open>scm_free\<close> on it finds the block at the first comparison and clears
  the in-use word at \<open>base\<close>, provided the end of the scan
  \<^verbatim>\<open>(char *)base_address + scm->utilized\<close> does not wrap around \<open>2^64\<close>.  If it wraps, the end lies
  below the start, the loop is not entered and \<^verbatim>\<open>scm_free\<close> returns without a change.
\<close>

theorem scm_mbase_chain_start:
  assumes "opened scm" and "opened scm0" and "utilized scm0 = 0"
    and "scm_malloc (Some scm0) sz = Return h (Inr p)"
  shows "if utilized scm = 0 then scm_mbase (Some scm) = base scm
         else scm_mbase (Some scm) = base scm + 2 * 8 \<and> scm_mbase (Some scm) = p
           \<and> scm_free (Some scm) (scm_mbase (Some scm)) =
               (if base scm + 2 * 8 + unat (utilized scm) < 2 ^ 64
                then Return (Some (scm\<lparr>mem := store_u64 (mem scm) (base scm) 0\<rparr>)) ()
                else Return (Some scm) ())"
proof (cases "utilized scm = 0")
  case True
  then show ?thesis by simp
next
  case False
  have b: "base scm = VIRT_ADDR + 8" and b0: "base scm0 = VIRT_ADDR + 8"
    using assms(1,2) by (simp_all add: opened_def INT_SIZE_def)
  have mb: "scm_mbase (Some scm) = base scm + 16"
    using False b by (simp add: ptr_add_def VIRT_ADDR_def)
  have p: "p = base scm + 16"
    using scm_malloc_Inr [OF assms(4)] assms(3) b b0 by (simp add: ptr_add_def VIRT_ADDR_def)
  have bk: "ptr_sub (base scm + 16) 16 = base scm"
    using b by (subst ptr_sub_no_wrap) (simp_all add: VIRT_ADDR_def)
  have acc: "accessible scm (base scm) 8"
    using opened_page [OF assms(1)] opened_base [OF assms(1)] by (simp add: accessible_def)
  have pos: "0 < unat (utilized scm)"
    using False by (simp add: unat_gt_0)
  have small: "unat (utilized scm) < 2 ^ 64"
    using unsigned_less [of "utilized scm", where 'a = nat] by simp
  show ?thesis
  proof (cases "base scm + 2 * 8 + unat (utilized scm) < 2 ^ 64")
    case True
    then have "ptr_add (base scm + 16) (unat (utilized scm)) = base scm + 16 + unat (utilized scm)"
      by (intro ptr_add_no_wrap) simp
    then have "scm_free_loop scm (ptr_add (base scm + 16) (unat (utilized scm))) (base scm + 16)
        (base scm + 16) = Some Found"
      using pos by (intro scm_free_loop_first) simp
    then have "scm_free (Some scm) (base scm + 16) =
        Return (Some (scm\<lparr>mem := store_u64 (mem scm) (base scm) 0\<rparr>)) ()"
      using mb acc bk by (simp del: scm_mbase.simps)
    then show ?thesis
      using False True mb p by (simp del: scm_mbase.simps scm_free.simps)
  next
    case wrap: False
    have "ptr_add (base scm + 16) (unat (utilized scm))
        = base scm + 16 + unat (utilized scm) - 2 ^ 64"
    proof -
      have "base scm + 16 + unat (utilized scm) < 2 * 2 ^ 64"
        using small b by (simp add: VIRT_ADDR_def)
      then have "(base scm + 16 + unat (utilized scm)) mod 2 ^ 64
          = base scm + 16 + unat (utilized scm) - 2 ^ 64"
        using wrap by (simp add: mod_if)
      then show ?thesis by (simp only: ptr_add_def)
    qed
    then have "\<not> base scm + 16 < ptr_add (base scm + 16) (unat (utilized scm))"
      using small by simp
    then have "scm_free_loop scm (ptr_add (base scm + 16) (unat (utilized scm))) (base scm + 16)
        (base scm + 16) = Some NotFound"
      by (rule scm_free_loop_empty)
    then have "scm_free (Some scm) (base scm + 16) = Return (Some scm) ()"
      using mb by (simp del: scm_mbase.simps)
    then show ?thesis
      using False wrap mb p by (simp del: scm_mbase.simps scm_free.simps)
  qed
qed

theorem scm_mbase_chain_start_witness:
  "case scm_malloc (scm_open (blank_file 100) 1) 76 of
     Return (Some scm) (Inr p) \<Rightarrow>
       scm_mbase (Some scm) = base scm + 2 * 8 \<and> scm_mbase (Some scm) = p
       \<and> scm_free (Some scm) (scm_mbase (Some scm)) =
           Return (Some (scm\<lparr>mem := store_u64 (mem scm) (base scm) 0\<rparr>)) ()
   | _ \<Rightarrow> False"
proof -
  obtain scm0 where scm0: "scm_open (blank_file 100) 1 = Some scm0"
    and f: "base scm0 = VIRT_ADDR + 8" "mapped scm0 = VIRT_ADDR" "utilized scm0 = 0"
      "capacity scm0 = 100"
    by (simp add: open_eval)
  have o0: "opened scm0"
    using f by (simp add: opened_def INT_SIZE_def TASK_SIZE_def VIRT_ADDR_def)
  define scm where
    "scm = scm0\<lparr>utilized := utilized scm0 + (76 + 16),
       mem := store_u32
         (store_u64 (store_u64 (mem scm0) (base scm0 + unat (utilized scm0)) 1)
           (base scm0 + unat (utilized scm0) + 8) 76)
         (mapped scm0 + 4) (ucast (utilized scm0 + (76 + 16)))\<rparr>"
  have "scm_malloc (Some scm0) 76 = Return (Some scm) (Inr (base scm0 + unat (utilized scm0) + 16))"
    unfolding scm_def
    by (rule scm_malloc_result [OF o0]) (simp_all add: f INT_SIZE_def METADATA_SIZE_def)
  then have m: "scm_malloc (Some scm0) 76 = Return (Some scm) (Inr (VIRT_ADDR + 24))"
    by (simp add: f del: scm_malloc.simps)
  have g: "base scm = VIRT_ADDR + 8" "mapped scm = VIRT_ADDR" "utilized scm = 92"
    "capacity scm = 100"
    by (simp_all add: scm_def f)
  have o: "opened scm"
    using g by (simp add: opened_def INT_SIZE_def TASK_SIZE_def VIRT_ADDR_def)
  have nz: "utilized scm \<noteq> 0"
    using g by simp
  have nw: "base scm + 2 * 8 + unat (utilized scm) < 2 ^ 64"
    using g by (simp add: VIRT_ADDR_def)
  from scm_mbase_chain_start [OF o o0 f(3) m]
  have "scm_mbase (Some scm) = base scm + 2 * 8 \<and> scm_mbase (Some scm) = VIRT_ADDR + 24
      \<and> scm_free (Some scm) (scm_mbase (Some scm)) =
          Return (Some (scm\<lparr>mem := store_u64 (mem scm) (base scm) 0\<rparr>)) ()"
    unfolding if_not_P [OF nz] if_P [OF nw] .
  then show ?thesis
    unfolding scm0 m outcome.case option.case sum.case .
qed

text \<open>
  C10.  The claim: every byte of a block that a successful \<^verbatim>\<open>scm_malloc\<close> creates, header
  and payload, lies inside the mapping of \<open>capacity\<close> bytes, that is
  \<open>INT_SIZE + utilized \<le> capacity\<close> afterwards.  The capacity test leaves out the \<open>INT_SIZE\<close>
  bytes of the Arena Header in front of \<open>base\<close>.  On a file of 17 bytes, \<^verbatim>\<open>scm_malloc\<close> of 1
  byte succeeds: the size word of the header is written at offsets 16 to 23, of which
  only offset 16 is inside the \<open>capacity\<close> bytes (the rest of the page takes the others), the
  payload address is offset 24, and \<open>INT_SIZE + utilized = 25\<close>.  What the test does ensure
  is \<open>utilized \<le> capacity\<close>: a block ends at most \<open>INT_SIZE\<close> bytes past the \<open>capacity\<close>
  bytes (\<open>scm_malloc_block_end\<close>).
\<close>

theorem scm_malloc_leaves_mapping:
  "(case scm_malloc (scm_open (blank_file 17) 1) 1 of
      Return (Some scm) (Inr p) \<Rightarrow>
        p = VIRT_ADDR + 24 \<and> load_u64 (mem scm) (p - 8) = 1
        \<and> in_mapping scm (p - 8) \<and> \<not> in_mapping scm (p - 7) \<and> \<not> in_mapping scm p
        \<and> unat (capacity scm) < INT_SIZE + unat (utilized scm)
    | _ \<Rightarrow> False)"
  by (simp add: open_eval in_mapping_def load_u64_store_u32_disjoint)

end
